theory Spec2Isabelle
  imports Complex_Main
begin

section \<open>JavaScript values used by assignmentManager.js\<close>

text \<open>
  A JavaScript number is an IEEE 754 double.  The program compares grades with \<open>50\<close>,
  adds them up and divides the sum by an array length.  \<open>Fin q\<close> is the finite double of
  value \<open>q\<close>; the infinities and \<open>NaN\<close> are kept apart.  The two zeros are one value
  here: \<open>>\<close>, \<open><=\<close> and \<open>===\<close> do not tell them apart.  Comparison is exact; a sum and
  a quotient are the exact result rounded to the nearest double, ties to even, and to an
  infinity beyond the largest double.  A \<open>Fin q\<close> whose \<open>q\<close> is no double is no value of
  the program; what is proved of every \<open>q\<close> holds of the doubles.
\<close>

datatype jsnum = Fin rat | PosInf | NegInf | NaN

text \<open>The operator \<open>>\<close> on two numbers.\<close>

fun js_gt :: "jsnum \<Rightarrow> jsnum \<Rightarrow> bool" where
  "js_gt NaN y = False"
| "js_gt x NaN = False"
| "js_gt PosInf PosInf = False"
| "js_gt PosInf y = True"
| "js_gt NegInf y = False"
| "js_gt (Fin a) PosInf = False"
| "js_gt (Fin a) NegInf = True"
| "js_gt (Fin a) (Fin b) = (b < a)"

text \<open>The operator \<open><=\<close> on two numbers.\<close>

fun js_le :: "jsnum \<Rightarrow> jsnum \<Rightarrow> bool" where
  "js_le NaN y = False"
| "js_le x NaN = False"
| "js_le NegInf y = True"
| "js_le x PosInf = True"
| "js_le PosInf y = False"
| "js_le (Fin a) NegInf = False"
| "js_le (Fin a) (Fin b) = (a \<le> b)"

text \<open>Rounding to the nearest integer, a tie to the even one.\<close>

definition roundHalfEven :: "rat \<Rightarrow> int" where
  "roundHalfEven q =
     (let f = \<lfloor>q\<rfloor>; d = q - of_int f
      in if d < 1 / 2 then f
         else if 1 / 2 < d then f + 1
         else if even f then f else f + 1)"

text \<open>The number of binary digits of a natural number.\<close>

fun bitLength :: "nat \<Rightarrow> nat" where
  "bitLength n = (if n = 0 then 0 else Suc (bitLength (n div 2)))"

text \<open>
  For \<open>0 < a\<close>, the integer \<open>e\<close> with \<open>2^e <= a < 2^(e+1)\<close>: one less than the number of
  digits of the integer part of \<open>a\<close> when \<open>1 <= a\<close>, and otherwise minus the least \<open>k\<close>
  with \<open>1 / a <= 2^k\<close>.
\<close>

definition floorLog2 :: "rat \<Rightarrow> int" where
  "floorLog2 a =
     (if 1 \<le> a then int (bitLength (nat \<lfloor>a\<rfloor>)) - 1
      else - int (bitLength (nat (\<lceil>1 / a\<rceil> - 1))))"

text \<open>
  The double nearest to a rational.  A finite double is \<open>m * 2^e\<close> with an integer
  \<open>m\<close> of at most 53 binary digits and \<open>-1074 <= e <= 971\<close>.  The exponent \<open>e\<close> is
  chosen so that the quotient by \<open>2^e\<close> has 53 digits before the point, but not below
  \<open>-1074\<close> (the subnormal doubles); the quotient is rounded to an integer, ties to even;
  a result of \<open>2^1024\<close> or more is an infinity.
\<close>

definition roundDouble :: "rat \<Rightarrow> jsnum" where
  "roundDouble q =
     (if q = 0 then Fin 0
      else
        (let a = \<bar>q\<bar>;
             e = max (- 1074) (floorLog2 a - 52);
             m = roundHalfEven (a / 2 powi e);
             v = of_int m * 2 powi e
         in if 2 ^ 1024 \<le> v then (if 0 < q then PosInf else NegInf)
            else Fin (if 0 < q then v else - v)))"

text \<open>The operator \<open>+\<close> on two numbers.\<close>

fun js_add :: "jsnum \<Rightarrow> jsnum \<Rightarrow> jsnum" where
  "js_add NaN y = NaN"
| "js_add x NaN = NaN"
| "js_add PosInf NegInf = NaN"
| "js_add NegInf PosInf = NaN"
| "js_add PosInf y = PosInf"
| "js_add x PosInf = PosInf"
| "js_add NegInf y = NegInf"
| "js_add x NegInf = NegInf"
| "js_add (Fin a) (Fin b) = roundDouble (a + b)"

text \<open>
  \<open>total / graded.length\<close>: a number divided by an array length, which is a double
  without rounding.  The length \<open>0\<close> is written out as JavaScript computes it, although
  \<open>_recalculateOverallGrade\<close> never divides by it.
\<close>

fun js_div_len :: "jsnum \<Rightarrow> nat \<Rightarrow> jsnum" where
  "js_div_len NaN n = NaN"
| "js_div_len PosInf n = PosInf"
| "js_div_len NegInf n = NegInf"
| "js_div_len (Fin a) n =
     (if n = 0 then (if 0 < a then PosInf else if a < 0 then NegInf else NaN)
      else roundDouble (a / of_nat n))"

text \<open>The values a caller can pass as the \<open>grade\<close> argument, and \<open>typeof\<close> on them.\<close>

datatype jsval =
    JUndefined
  | JNull
  | JBool bool
  | JNumber jsnum
  | JString string
  | JBigInt int
  | JSymbol string
  | JFunction nat
  | JObject nat

fun typeof :: "jsval \<Rightarrow> string" where
  "typeof JUndefined = ''undefined''"
| "typeof JNull = ''object''"
| "typeof (JBool b) = ''boolean''"
| "typeof (JNumber x) = ''number''"
| "typeof (JString s) = ''string''"
| "typeof (JBigInt k) = ''bigint''"
| "typeof (JSymbol s) = ''symbol''"
| "typeof (JFunction f) = ''function''"
| "typeof (JObject r) = ''object''"

section \<open>Assignment\<close>

text \<open>
  The status strings the program writes: \<open>"released"\<close>, \<open>"working"\<close>, \<open>"submitted"\<close>,
  \<open>"final reminder"\<close>, \<open>"Pass"\<close> and \<open>"Fail"\<close>.
\<close>

datatype status = Released | Working | Submitted | FinalReminder | Pass | Fail

text \<open>
  The fields \<open>_grade\<close>, \<open>_graded\<close> and \<open>_workTimeoutId\<close>; \<open>null\<close> is \<open>None\<close>.
  A timer handle is a positive integer (or, in Node, an object), hence truthy whenever
  it is not \<open>null\<close>.
\<close>

record assignment =
  assignmentName :: string
  status :: status
  grade :: "jsnum option"
  graded :: bool
  workTimeoutId :: "nat option"

definition newAssignment :: "string \<Rightarrow> assignment" where
  "newAssignment n =
     \<lparr>assignmentName = n, status = Released, grade = None, graded = False,
      workTimeoutId = None\<rparr>"

definition setGrade :: "jsnum \<Rightarrow> assignment \<Rightarrow> assignment" where
  "setGrade g a =
     a\<lparr>grade := Some g, graded := True,
       status := (if js_gt g (Fin 50) then Pass else Fail)\<rparr>"

section \<open>Observer\<close>

text \<open>
  What a student or a class list holds in its \<open>observer\<close> field.  \<open>ObsNoNotify\<close> is any
  truthy value whose \<open>notify\<close> is not a function; \<open>ObsNotify\<close> is an object with a
  \<open>notify\<close> function, such as an instance of \<open>Observer\<close>.
\<close>

datatype observer = ObsUndefined | ObsNull | ObsNoNotify | ObsNotify

text \<open>\<open>this.observer && typeof this.observer.notify === "function"\<close>\<close>

fun canNotify :: "observer \<Rightarrow> bool" where
  "canNotify ObsUndefined = False"
| "canNotify ObsNull = False"
| "canNotify ObsNoNotify = False"
| "canNotify ObsNotify = True"

text \<open>
  A call \<open>notify(student, assignment, isReminder)\<close> is recorded with what \<open>notify\<close> reads:
  the student's full name, the assignment's name and status, and the flag.
\<close>

type_synonym event = "string \<times> string \<times> status \<times> bool"

datatype message =
    MsgFinalReminder string string
  | MsgReleased string string
  | MsgWorking string string
  | MsgSubmitted string string
  | MsgPassed string string
  | MsgFailed string string

text \<open>\<open>Observer.notify\<close>: which line is printed (first match wins).\<close>

fun notify :: "event \<Rightarrow> message" where
  "notify (name, aName, st, isReminder) =
     (if isReminder \<or> st = FinalReminder then MsgFinalReminder name aName
      else if st = Released then MsgReleased name aName
      else if st = Working then MsgWorking name aName
      else if st = Submitted then MsgSubmitted name aName
      else if st = Pass then MsgPassed name aName
      else MsgFailed name aName)"

section \<open>Student\<close>

record student =
  fullName :: string
  email :: string
  assignmentStatuses :: "assignment list"
  overallGrade :: "jsnum option"
  observer :: observer

definition newStudent :: "string \<Rightarrow> string \<Rightarrow> observer \<Rightarrow> student" where
  "newStudent n e ob =
     \<lparr>fullName = n, email = e, assignmentStatuses = [], overallGrade = None,
      observer = ob\<rparr>"

text \<open>
  \<open>_findAssignment\<close>: the first assignment with the name.  The array only ever grows
  at its end, so the position of an assignment stands for the object.
\<close>

fun findAssignment :: "string \<Rightarrow> assignment list \<Rightarrow> nat option" where
  "findAssignment n [] = None"
| "findAssignment n (a # as) =
     (if assignmentName a = n then Some 0 else map_option Suc (findAssignment n as))"

text \<open>
  \<open>_recalculateOverallGrade\<close>.  In the \<open>reduce\<close>, \<open>sum + null\<close> would be \<open>sum\<close>; the
  filter lets no such element through.
\<close>

definition recalculateOverallGrade :: "student \<Rightarrow> student" where
  "recalculateOverallGrade s =
     (let gradedL = filter (\<lambda>a. grade a \<noteq> None) (assignmentStatuses s)
      in if length gradedL = 0 then s\<lparr>overallGrade := None\<rparr>
         else
           (let total =
                  foldl (\<lambda>sum a. case grade a of None \<Rightarrow> sum | Some g \<Rightarrow> js_add sum g)
                    (Fin 0) gradedL
            in s\<lparr>overallGrade := Some (js_div_len total (length gradedL))\<rparr>))"

text \<open>\<open>getGrade\<close>: the student afterwards and the value returned.\<close>

definition getGrade :: "student \<Rightarrow> student \<times> jsnum option" where
  "getGrade s = (let s' = recalculateOverallGrade s in (s', overallGrade s'))"

section \<open>The heap, the timers and the console\<close>

text \<open>
  A scheduled callback.  \<open>AutoSubmit sid i n\<close> is the closure of \<open>startWorking\<close>: it holds
  the student, the assignment object and the assignment name.  \<open>AutoGrade sid i\<close> is the
  closure of \<open>submitAssignment\<close>: it holds the student and the assignment object.
\<close>

datatype task = AutoSubmit nat nat string | AutoGrade nat nat

text \<open>
  Students are objects: \<open>heap\<close> lists them in the order of their creation, and a student
  is referred to by its position.  \<open>timers\<close> are the pending callbacks with their
  handles, \<open>nextId\<close> is the next handle \<open>setTimeout\<close> gives out, and \<open>console\<close> are the
  calls of \<open>notify\<close> made so far on observers that have one.
\<close>

record world =
  heap :: "student list"
  timers :: "(nat \<times> task) list"
  nextId :: nat
  console :: "event list"

definition init :: world where
  "init = \<lparr>heap = [], timers = [], nextId = 1, console = []\<rparr>"

definition getA :: "world \<Rightarrow> nat \<Rightarrow> nat \<Rightarrow> assignment" where
  "getA w sid i = assignmentStatuses (heap w ! sid) ! i"

text \<open>A write to fields of the assignment object \<open>i\<close> of student \<open>sid\<close>.\<close>

definition modA :: "nat \<Rightarrow> nat \<Rightarrow> (assignment \<Rightarrow> assignment) \<Rightarrow> world \<Rightarrow> world" where
  "modA sid i f w =
     w\<lparr>heap := (heap w)[sid := (heap w ! sid)
          \<lparr>assignmentStatuses := (assignmentStatuses (heap w ! sid))[i := f (getA w sid i)]\<rparr>]\<rparr>"

definition setTimeout :: "task \<Rightarrow> world \<Rightarrow> nat \<times> world" where
  "setTimeout t w =
     (nextId w, w\<lparr>timers := timers w @ [(nextId w, t)], nextId := Suc (nextId w)\<rparr>)"

definition clearTimeout :: "nat \<Rightarrow> world \<Rightarrow> world" where
  "clearTimeout h w = w\<lparr>timers := filter (\<lambda>p. fst p \<noteq> h) (timers w)\<rparr>"

text \<open>\<open>observer.notify(student, assignment, isReminder)\<close> on the observer \<open>ob\<close>, if it can.\<close>

definition notifyVia :: "observer \<Rightarrow> nat \<Rightarrow> nat \<Rightarrow> bool \<Rightarrow> world \<Rightarrow> world" where
  "notifyVia ob sid i isReminder w =
     (if canNotify ob
      then w\<lparr>console := console w @
             [(fullName (heap w ! sid), assignmentName (getA w sid i), status (getA w sid i),
               isReminder)]\<rparr>
      else w)"

text \<open>\<open>Student._notifyObserver\<close>\<close>

definition notifyObserver :: "nat \<Rightarrow> nat \<Rightarrow> bool \<Rightarrow> world \<Rightarrow> world" where
  "notifyObserver sid i isReminder w = notifyVia (observer (heap w ! sid)) sid i isReminder w"

text \<open>
  The block that opens \<open>updateAssignmentStatus\<close>, \<open>startWorking\<close> and \<open>submitAssignment\<close>:
  find the assignment, or create it, push it and notify.  It yields the assignment.
\<close>

definition lazyCreate :: "nat \<Rightarrow> string \<Rightarrow> world \<Rightarrow> nat \<times> world" where
  "lazyCreate sid n w =
     (case findAssignment n (assignmentStatuses (heap w ! sid)) of
        Some i \<Rightarrow> (i, w)
      | None \<Rightarrow>
          (let i = length (assignmentStatuses (heap w ! sid));
               w1 = w\<lparr>heap := (heap w)[sid := (heap w ! sid)
                      \<lparr>assignmentStatuses :=
                         assignmentStatuses (heap w ! sid) @ [newAssignment n]\<rparr>]\<rparr>
           in (i, notifyObserver sid i False w1)))"

definition recalc :: "nat \<Rightarrow> world \<Rightarrow> world" where
  "recalc sid w = w\<lparr>heap := (heap w)[sid := recalculateOverallGrade (heap w ! sid)]\<rparr>"

text \<open>
  The methods of a student take the student's position; on a position that holds no
  student (no such call exists in JavaScript) they do nothing.
\<close>

definition updateAssignmentStatus :: "nat \<Rightarrow> string \<Rightarrow> jsval \<Rightarrow> world \<Rightarrow> world" where
  "updateAssignmentStatus sid n gradeArg w =
     (if \<not> sid < length (heap w) then w
      else
        (let (i, w1) = lazyCreate sid n w
         in case gradeArg of
              JNumber g \<Rightarrow> recalc sid (notifyObserver sid i False (modA sid i (setGrade g) w1))
            | _ \<Rightarrow> w1))"

definition getAssignmentStatus :: "string \<Rightarrow> student \<Rightarrow> status option" where
  "getAssignmentStatus n s =
     (case findAssignment n (assignmentStatuses s) of
        None \<Rightarrow> None
      | Some i \<Rightarrow> Some (status (assignmentStatuses s ! i)))"

definition startWorking :: "nat \<Rightarrow> string \<Rightarrow> world \<Rightarrow> world" where
  "startWorking sid n w =
     (if \<not> sid < length (heap w) then w
      else
        (let (i, w1) = lazyCreate sid n w;
             w2 = notifyObserver sid i False (modA sid i (\<lambda>a. a\<lparr>status := Working\<rparr>) w1);
             w3 = (case workTimeoutId (getA w2 sid i) of
                     Some h \<Rightarrow> clearTimeout h w2
                   | None \<Rightarrow> w2);
             (h, w4) = setTimeout (AutoSubmit sid i n) w3
         in modA sid i (\<lambda>a. a\<lparr>workTimeoutId := Some h\<rparr>) w4))"

text \<open>
  The block \<open>if (assignment._workTimeoutId) { clearTimeout(...); ... = null; }\<close> of
  \<open>submitAssignment\<close> and of \<open>sendReminder\<close>.
\<close>

definition cancelWorkTimer :: "nat \<Rightarrow> nat \<Rightarrow> world \<Rightarrow> world" where
  "cancelWorkTimer sid i w =
     (case workTimeoutId (getA w sid i) of
        Some h \<Rightarrow> modA sid i (\<lambda>a. a\<lparr>workTimeoutId := None\<rparr>) (clearTimeout h w)
      | None \<Rightarrow> w)"

definition submitAssignment :: "nat \<Rightarrow> string \<Rightarrow> world \<Rightarrow> world" where
  "submitAssignment sid n w =
     (if \<not> sid < length (heap w) then w
      else
        (let (i, w1) = lazyCreate sid n w
         in if status (getA w1 sid i) = Submitted \<or> status (getA w1 sid i) = Pass
               \<or> status (getA w1 sid i) = Fail
            then w1
            else
              (let w2 = cancelWorkTimer sid i w1;
                   w3 = notifyObserver sid i False
                          (modA sid i (\<lambda>a. a\<lparr>status := Submitted\<rparr>) w2)
               in snd (setTimeout (AutoGrade sid i) w3))))"

text \<open>
  A pending callback runs; \<open>r\<close> is what \<open>Math.floor(Math.random() * 101)\<close> yields if the
  callback draws a grade.
\<close>

definition runTask :: "task \<Rightarrow> nat \<Rightarrow> world \<Rightarrow> world" where
  "runTask t r w =
     (case t of
        AutoSubmit sid i n \<Rightarrow>
          (if status (getA w sid i) = Working \<or> status (getA w sid i) = Released
              \<or> status (getA w sid i) = FinalReminder
           then submitAssignment sid n w
           else w)
      | AutoGrade sid i \<Rightarrow>
          (if graded (getA w sid i) then w
           else recalc sid
                  (notifyObserver sid i False (modA sid i (setGrade (Fin (of_nat r))) w))))"

definition fire :: "nat \<Rightarrow> nat \<Rightarrow> world \<Rightarrow> world" where
  "fire h r w =
     (case map_of (timers w) h of
        None \<Rightarrow> w
      | Some t \<Rightarrow> runTask t r (clearTimeout h w))"

section \<open>ClassList\<close>

text \<open>
  \<open>findOutstandingAssignments\<close> over the students of the roster.  The argument is
  \<open>None\<close> when the caller passes none; the test \<open>if (assignmentName)\<close> also sends the
  empty string to the second branch.
\<close>

fun truthyName :: "string option \<Rightarrow> bool" where
  "truthyName None = False"
| "truthyName (Some n) = (n \<noteq> [])"

definition outstandingFor :: "string \<Rightarrow> string list \<Rightarrow> student \<Rightarrow> string list" where
  "outstandingFor n result s =
     (case find (\<lambda>a. assignmentName a = n) (assignmentStatuses s) of
        None \<Rightarrow> result
      | Some a \<Rightarrow>
          (if status a \<noteq> Submitted \<and> status a \<noteq> Pass \<and> status a \<noteq> Fail
           then result @ [fullName s] else result))"

definition outstandingAny :: "string list \<Rightarrow> student \<Rightarrow> string list" where
  "outstandingAny result s =
     (if list_ex (\<lambda>a. status a \<in> set [Released, Working, FinalReminder])
           (assignmentStatuses s)
      then result @ [fullName s] else result)"

definition findOutstandingAssignments :: "string option \<Rightarrow> student list \<Rightarrow> string list" where
  "findOutstandingAssignments arg ss =
     (if truthyName arg then foldl (outstandingFor (the arg)) [] ss
      else foldl outstandingAny [] ss)"

text \<open>The roster of a class list: the students it refers to, in order.\<close>

definition rosterStudents :: "nat list \<Rightarrow> world \<Rightarrow> student list" where
  "rosterStudents ids w = map (\<lambda>sid. heap w ! sid) (filter (\<lambda>sid. sid < length (heap w)) ids)"

text \<open>
  The body of the \<open>forEach\<close> of \<open>sendReminder\<close>, for the class list's observer \<open>ob\<close>.
  After \<open>updateAssignmentStatus\<close> the second search finds the assignment
  (lemma \<open>remind_reminded\<close> below goes through it), so the write to
  \<open>assignment.status\<close> never meets \<open>undefined\<close>; the branch \<open>None\<close> is there to make the
  function total.
\<close>

definition remindStudent :: "observer \<Rightarrow> string list \<Rightarrow> string \<Rightarrow> world \<Rightarrow> nat \<Rightarrow> world" where
  "remindStudent ob outstanding n w sid =
     (if \<not> sid < length (heap w) then w
      else if fullName (heap w ! sid) \<notin> set outstanding then w
      else
        (let w1 = (case findAssignment n (assignmentStatuses (heap w ! sid)) of
                     None \<Rightarrow> updateAssignmentStatus sid n JUndefined w
                   | Some i \<Rightarrow> w)
         in case findAssignment n (assignmentStatuses (heap w1 ! sid)) of
              None \<Rightarrow> w1
            | Some i \<Rightarrow>
                (let w2 = notifyVia ob sid i True
                            (modA sid i (\<lambda>a. a\<lparr>status := FinalReminder\<rparr>) w1)
                 in submitAssignment sid n (cancelWorkTimer sid i w2))))"

definition sendReminder :: "nat list \<Rightarrow> observer \<Rightarrow> string \<Rightarrow> world \<Rightarrow> world" where
  "sendReminder ids ob n w =
     foldl (remindStudent ob (findOutstandingAssignments (Some n) (rosterStudents ids w)) n)
       w ids"

section \<open>Reachable states\<close>

text \<open>
  The calls a client can make, and a pending callback running.  Callbacks may run in
  any order and at any moment between two calls, which covers every schedule of the
  timers; \<open>releaseAssignmentsParallel\<close> only schedules calls
  \<open>updateAssignmentStatus(name)\<close>, which are covered as calls.
\<close>

datatype action =
    NewStudent string string observer
  | SetFullName nat string
  | SetEmail nat string
  | UpdateAssignmentStatus nat string jsval
  | StartWorking nat string
  | SubmitAssignment nat string
  | GetGrade nat
  | SendReminder "nat list" observer string
  | Fire nat nat

fun step :: "action \<Rightarrow> world \<Rightarrow> world" where
  "step (NewStudent n e ob) w = w\<lparr>heap := heap w @ [newStudent n e ob]\<rparr>"
| "step (SetFullName sid n) w =
     (if sid < length (heap w) then w\<lparr>heap := (heap w)[sid := (heap w ! sid)\<lparr>fullName := n\<rparr>]\<rparr>
      else w)"
| "step (SetEmail sid e) w =
     (if sid < length (heap w) then w\<lparr>heap := (heap w)[sid := (heap w ! sid)\<lparr>email := e\<rparr>]\<rparr>
      else w)"
| "step (UpdateAssignmentStatus sid n g) w = updateAssignmentStatus sid n g w"
| "step (StartWorking sid n) w = startWorking sid n w"
| "step (SubmitAssignment sid n) w = submitAssignment sid n w"
| "step (GetGrade sid) w = (if sid < length (heap w) then recalc sid w else w)"
| "step (SendReminder ids ob n) w = sendReminder ids ob n w"
| "step (Fire h r) w = fire h r w"

text \<open>The drawn grade is one of \<open>0, ..., 100\<close>.\<close>

fun drawOk :: "action \<Rightarrow> bool" where
  "drawOk (Fire h r) = (r \<le> 100)"
| "drawOk a = True"

inductive reachable :: "world \<Rightarrow> bool" where
  reach_init: "reachable init"
| reach_step: "reachable w \<Longrightarrow> drawOk a \<Longrightarrow> reachable (step a w)"

text \<open>A sequence of actions, first to last.\<close>

fun run :: "action list \<Rightarrow> world \<Rightarrow> world" where
  "run [] w = w"
| "run (a # as) w = run as (step a w)"

section \<open>Notions used in the statements\<close>

text \<open>Lazy creation spelt out: a new released assignment is pushed and, if the student's
  observer can be notified, it is told so.\<close>

definition pushReleased :: "nat \<Rightarrow> string \<Rightarrow> world \<Rightarrow> world" where
  "pushReleased sid n w =
     w\<lparr>heap := (heap w)[sid := (heap w ! sid)
          \<lparr>assignmentStatuses := assignmentStatuses (heap w ! sid) @ [newAssignment n]\<rparr>],
       console := console w @
         (if canNotify (observer (heap w ! sid))
          then [(fullName (heap w ! sid), n, Released, False)] else [])\<rparr>"

text \<open>A state with one student and no assignment.\<close>

definition adaAlone :: world where
  "adaAlone = \<lparr>heap = [newStudent ''Ada'' ''ada@example.org'' ObsNotify], timers = [], nextId = 1,
         console = []\<rparr>"

text \<open>A state in which Ada has submitted \<open>HW1\<close> and its grading is pending.\<close>

definition submittedWorld :: world where
  "submittedWorld =
     \<lparr>heap = [\<lparr>fullName = ''Ada'', email = ''ada@example.org'',
               assignmentStatuses =
                 [\<lparr>assignmentName = ''HW1'', status = Submitted, grade = None,
                   graded = False, workTimeoutId = None\<rparr>],
               overallGrade = None, observer = ObsNotify\<rparr>],
      timers = [(1, AutoGrade 0 0)], nextId = 2,
      console = [(''Ada'', ''HW1'', Released, False), (''Ada'', ''HW1'', Submitted, False)]\<rparr>"

text \<open>A roster: Ada has \<open>HW1\<close> released, Bob has no assignment.\<close>

definition adaAndBob :: "student list" where
  "adaAndBob =
     [\<lparr>fullName = ''Ada'', email = ''ada@example.org'',
       assignmentStatuses = [newAssignment ''HW1''], overallGrade = None,
       observer = ObsNotify\<rparr>,
      newStudent ''Bob'' ''bob@example.org'' ObsNotify]"

text \<open>A roster with one full name twice: only the first Sam has an assignment.\<close>

definition twoSams :: "student list" where
  "twoSams =
     [\<lparr>fullName = ''Sam'', email = ''sam1@example.org'',
       assignmentStatuses = [newAssignment ''HW1''], overallGrade = None,
       observer = ObsNotify\<rparr>,
      newStudent ''Sam'' ''sam2@example.org'' ObsNotify]"

text \<open>The student has an assignment that is released, in work or in final reminder.\<close>

definition hasOutstanding :: "student \<Rightarrow> bool" where
  "hasOutstanding s \<longleftrightarrow>
     (\<exists>a \<in> set (assignmentStatuses s).
        status a = Released \<or> status a = Working \<or> status a = FinalReminder)"

text \<open>The grades that are present, in the order of the assignments.\<close>

definition presentGrades :: "student \<Rightarrow> jsnum list" where
  "presentGrades s = List.map_filter grade (assignmentStatuses s)"

text \<open>The sum of a list of doubles as \<open>reduce\<close> computes it: from \<open>0\<close>, left to right, each
  partial sum rounded.\<close>

definition doubleSum :: "jsnum list \<Rightarrow> jsnum" where
  "doubleSum gs = foldl js_add (Fin 0) gs"

text \<open>The arithmetic mean in the specification's words, of rational numbers and without
  rounding: the sum divided by the number of summands.\<close>

definition arithmeticMean :: "rat list \<Rightarrow> rat" where
  "arithmeticMean qs = sum_list qs / of_nat (length qs)"

text \<open>The largest double, \<open>Number.MAX_VALUE\<close>.\<close>

definition maxDouble :: rat where
  "maxDouble = (2 ^ 53 - 1) * 2 ^ 971"

text \<open>A student with two graded assignments and one that is not graded.\<close>

definition threeAssignments :: student where
  "threeAssignments =
     \<lparr>fullName = ''Ada'', email = ''ada@example.org'',
      assignmentStatuses =
        [setGrade (Fin 75) (newAssignment ''HW1''), newAssignment ''HW2'',
         setGrade (Fin 50) (newAssignment ''HW3'')],
      overallGrade = None, observer = ObsNotify\<rparr>"

text \<open>A student with the grades 1, 2 and 2, and one with the largest double twice.\<close>

definition oneTwoTwo :: student where
  "oneTwoTwo =
     \<lparr>fullName = ''Ada'', email = ''ada@example.org'',
      assignmentStatuses =
        [setGrade (Fin 1) (newAssignment ''HW1''), setGrade (Fin 2) (newAssignment ''HW2''),
         setGrade (Fin 2) (newAssignment ''HW3'')],
      overallGrade = None, observer = ObsNotify\<rparr>"

definition twoMax :: student where
  "twoMax =
     \<lparr>fullName = ''Ada'', email = ''ada@example.org'',
      assignmentStatuses =
        [setGrade (Fin maxDouble) (newAssignment ''HW1''),
         setGrade (Fin maxDouble) (newAssignment ''HW2'')],
      overallGrade = None, observer = ObsNotify\<rparr>"

text \<open>Every assignment of every student satisfies \<open>P\<close>.\<close>

definition allA :: "(assignment \<Rightarrow> bool) \<Rightarrow> world \<Rightarrow> bool" where
  "allA P w \<longleftrightarrow>
     (\<forall>sid < length (heap w). \<forall>i < length (assignmentStatuses (heap w ! sid)).
        P (getA w sid i))"



text \<open>Every assignment of \<open>w\<close> is still there in \<open>w'\<close>, at its place, and is related to what it
  was by \<open>R\<close>.\<close>

definition relA :: "(assignment \<Rightarrow> assignment \<Rightarrow> bool) \<Rightarrow> world \<Rightarrow> world \<Rightarrow> bool" where
  "relA R w w' \<longleftrightarrow>
     length (heap w) \<le> length (heap w')
     \<and> (\<forall>sid < length (heap w).
          length (assignmentStatuses (heap w ! sid))
            \<le> length (assignmentStatuses (heap w' ! sid))
          \<and> (\<forall>i < length (assignmentStatuses (heap w ! sid)).
                R (getA w sid i) (getA w' sid i)))"

text \<open>\<open>R\<close> is reflexive and transitive.\<close>

definition preorderR :: "(assignment \<Rightarrow> assignment \<Rightarrow> bool) \<Rightarrow> bool" where
  "preorderR R \<longleftrightarrow> (\<forall>a. R a a) \<and> (\<forall>a b c. R a b \<longrightarrow> R b c \<longrightarrow> R a c)"

text \<open>What is kept of a graded assignment: the flag always, the grade if \<open>kg\<close>, a status
  \<open>Pass\<close> or \<open>Fail\<close> if \<open>ks\<close>.\<close>

definition keeps :: "bool \<Rightarrow> bool \<Rightarrow> assignment \<Rightarrow> assignment \<Rightarrow> bool" where
  "keeps kg ks a a' \<longleftrightarrow>
     assignmentName a' = assignmentName a
     \<and> (graded a \<longrightarrow>
          graded a'
          \<and> (kg \<longrightarrow> grade a' = grade a)
          \<and> (ks \<longrightarrow> status a = Pass \<or> status a = Fail \<longrightarrow> status a' = status a))"

text \<open>The pending timers have distinct handles, all given out already, and a pending
  auto-submit timer belongs to an existing assignment whose \<open>_workTimeoutId\<close> is its handle.\<close>

definition timersOk :: "world \<Rightarrow> bool" where
  "timersOk w \<longleftrightarrow>
     distinct (map fst (timers w))
     \<and> (\<forall>p \<in> set (timers w). fst p < nextId w)
     \<and> (\<forall>h sid i n. (h, AutoSubmit sid i n) \<in> set (timers w) \<longrightarrow>
           sid < length (heap w) \<and> i < length (assignmentStatuses (heap w ! sid))
           \<and> workTimeoutId (getA w sid i) = Some h)"

text \<open>The assignment has kept its \<open>_workTimeoutId\<close>.\<close>

definition sameW :: "assignment \<Rightarrow> assignment \<Rightarrow> bool" where
  "sameW a a' \<longleftrightarrow> workTimeoutId a' = workTimeoutId a"

text \<open>No auto-submit timer is pending for the assignment.\<close>

definition noAutoSubmit :: "nat \<Rightarrow> nat \<Rightarrow> world \<Rightarrow> bool" where
  "noAutoSubmit sid i w \<longleftrightarrow> (\<forall>h n. (h, AutoSubmit sid i n) \<notin> set (timers w))"

text \<open>The calls that grade: \<open>updateAssignmentStatus\<close> with a number.\<close>

fun regrades :: "action \<Rightarrow> bool" where
  "regrades (UpdateAssignmentStatus sid n v) = (typeof v = ''number'')"
| "regrades a = False"

text \<open>The calls that set the status whatever it is.\<close>

fun forcesStatus :: "action \<Rightarrow> bool" where
  "forcesStatus (StartWorking sid n) = True"
| "forcesStatus (SendReminder ids ob n) = True"
| "forcesStatus a = False"





text \<open>Example runs, each from the initial state.\<close>

definition ada :: action where
  "ada = NewStudent ''Ada'' ''ada@example.org'' ObsNotify"

definition gradedThenWorking :: world where
  "gradedThenWorking =
     run [ada, UpdateAssignmentStatus 0 ''HW2'' (JNumber (Fin 80)), StartWorking 0 ''HW2''] init"

definition gradedOnce :: world where
  "gradedOnce = run [ada, UpdateAssignmentStatus 0 ''HW2'' (JNumber (Fin 80))] init"

definition workSubmitWork :: world where
  "workSubmitWork =
     run [ada, StartWorking 0 ''HW1'', SubmitAssignment 0 ''HW1'', StartWorking 0 ''HW1''] init"

text \<open>The state with another value in the \<open>observer\<close> field of a student.\<close>

definition setObserver :: "nat \<Rightarrow> observer \<Rightarrow> world \<Rightarrow> world" where
  "setObserver sid ob w = w\<lparr>heap := (heap w)[sid := (heap w ! sid)\<lparr>observer := ob\<rparr>]\<rparr>"

text \<open>The state \<open>w\<close> with the observer \<open>ob\<close> in student \<open>sid\<close> and with the console \<open>c\<close>.\<close>

definition silenced :: "nat \<Rightarrow> observer \<Rightarrow> event list \<Rightarrow> world \<Rightarrow> world" where
  "silenced sid ob c w = setObserver sid ob (w\<lparr>console := c\<rparr>)"

text \<open>From \<open>w\<close> to \<open>w'\<close> only student \<open>sid\<close> has changed, names and observers are as before,
  and the console has only grown.\<close>

definition touches :: "nat \<Rightarrow> world \<Rightarrow> world \<Rightarrow> bool" where
  "touches sid w w' \<longleftrightarrow>
     length (heap w') = length (heap w)
     \<and> (\<forall>k. k \<noteq> sid \<longrightarrow> heap w' ! k = heap w ! k)
     \<and> (\<forall>k. fullName (heap w' ! k) = fullName (heap w ! k))
     \<and> (\<forall>k. observer (heap w' ! k) = observer (heap w ! k))
     \<and> (\<exists>ys. console w' = console w @ ys)"

text \<open>The student has the named assignment, and it is neither submitted nor graded.\<close>

definition outstandingNamed :: "string \<Rightarrow> student \<Rightarrow> bool" where
  "outstandingNamed n s \<longleftrightarrow>
     (case find (\<lambda>a. assignmentName a = n) (assignmentStatuses s) of
        None \<Rightarrow> False
      | Some a \<Rightarrow> status a \<noteq> Submitted \<and> status a \<noteq> Pass \<and> status a \<noteq> Fail)"

text \<open>Where the named assignment is, or where it will be pushed.\<close>

definition slot :: "string \<Rightarrow> assignment list \<Rightarrow> nat" where
  "slot n as = (case findAssignment n as of Some i \<Rightarrow> i | None \<Rightarrow> length as)"

text \<open>Two students with one full name; only the first has \<open>HW3\<close>.\<close>

definition twins :: world where
  "twins =
     \<lparr>heap = [\<lparr>fullName = ''Sam'', email = ''sam1@example.org'',
               assignmentStatuses = [newAssignment ''HW3''], overallGrade = None,
               observer = ObsNotify\<rparr>,
              newStudent ''Sam'' ''sam2@example.org'' ObsNotify],
      timers = [], nextId = 1, console = []\<rparr>"

text \<open>From \<open>w\<close> to \<open>w'\<close> no student but \<open>sid\<close> has changed, and of the assignments that
  \<open>sid\<close> had none but the one at \<open>j\<close>.\<close>

definition onlyAt :: "nat \<Rightarrow> nat \<Rightarrow> world \<Rightarrow> world \<Rightarrow> bool" where
  "onlyAt sid j w w' \<longleftrightarrow>
     length (heap w') = length (heap w)
     \<and> (\<forall>k. k \<noteq> sid \<longrightarrow> heap w' ! k = heap w ! k)
     \<and> length (assignmentStatuses (heap w ! sid)) \<le> length (assignmentStatuses (heap w' ! sid))
     \<and> (\<forall>i < length (assignmentStatuses (heap w ! sid)). i \<noteq> j \<longrightarrow>
           getA w' sid i = getA w sid i)"

text \<open>The call is \<open>updateAssignmentStatus\<close> with a number, on student \<open>sid\<close> and with the name
  of the assignment at \<open>i\<close>.\<close>

fun regradesAt :: "world \<Rightarrow> nat \<Rightarrow> nat \<Rightarrow> action \<Rightarrow> bool" where
  "regradesAt w sid i (UpdateAssignmentStatus sid' n v) =
     (typeof v = ''number'' \<and> sid' = sid
      \<and> findAssignment n (assignmentStatuses (heap w ! sid)) = Some i)"
| "regradesAt w sid i a = False"

text \<open>The call is \<open>startWorking\<close> on student \<open>sid\<close> with the name of the assignment at \<open>i\<close>,
  or \<open>sendReminder\<close> with that name for a roster that has the student, when the student's
  full name is among the outstanding ones.\<close>

fun forcesStatusAt :: "world \<Rightarrow> nat \<Rightarrow> nat \<Rightarrow> action \<Rightarrow> bool" where
  "forcesStatusAt w sid i (StartWorking sid' n) =
     (sid' = sid \<and> findAssignment n (assignmentStatuses (heap w ! sid)) = Some i)"
| "forcesStatusAt w sid i (SendReminder ids ob n) =
     (sid \<in> set ids
      \<and> findAssignment n (assignmentStatuses (heap w ! sid)) = Some i
      \<and> fullName (heap w ! sid)
           \<in> set (findOutstandingAssignments (Some n) (rosterStudents ids w)))"
| "forcesStatusAt w sid i a = False"

text \<open>Two students with one full name: the first has \<open>HW3\<close> released, the second has it
  graded.\<close>

definition samsGraded :: world where
  "samsGraded =
     run [NewStudent ''Sam'' ''sam1@example.org'' ObsNotify,
          NewStudent ''Sam'' ''sam2@example.org'' ObsNotify,
          UpdateAssignmentStatus 0 ''HW3'' JUndefined,
          UpdateAssignmentStatus 1 ''HW3'' (JNumber (Fin 80))] init"

section \<open>Lemmas\<close>

subsection \<open>Rounding to a double\<close>

declare bitLength.simps [simp del]

lemma bitLength_zero [simp]: "bitLength 0 = 0"
  by (simp add: bitLength.simps)

lemma bitLength_one [simp]: "bitLength 1 = 1" "bitLength (Suc 0) = 1"
  by (simp_all add: bitLength.simps)

lemma bitLength_numeral [simp]:
  "bitLength (numeral n) = Suc (bitLength (numeral n div 2))"
  by (subst bitLength.simps) simp

lemma roundHalfEven_of_int [simp]: "roundHalfEven (of_int z) = z"
  by (simp add: roundHalfEven_def)

lemma bitLength_le: "n < 2 ^ m \<Longrightarrow> bitLength n \<le> m"
proof (induction m arbitrary: n)
  case 0
  then show ?case by simp
next
  case (Suc m)
  show ?case
  proof (cases "n = 0")
    case True
    then show ?thesis by simp
  next
    case False
    from Suc.prems have "n div 2 < 2 ^ m" by simp
    from Suc.IH [OF this] False show ?thesis by (subst bitLength.simps) simp
  qed
qed

lemma bitLength_pos: "0 < n \<Longrightarrow> 0 < bitLength n"
  by (subst bitLength.simps) simp

lemma roundDouble_of_nat:
  assumes "k < 2 ^ 53"
  shows "roundDouble (of_nat k) = Fin (of_nat k)"
proof (cases "k = 0")
  case True
  then show ?thesis by (simp add: roundDouble_def)
next
  case False
  define b where "b = bitLength k"
  have b: "0 < b" "b \<le> 53"
    using False bitLength_le [OF assms] bitLength_pos [of k] by (simp_all add: b_def)
  define j where "j = 53 - b"
  have fl: "floorLog2 (of_nat k) = int b - 1"
    using False by (simp add: floorLog2_def b_def)
  have e: "max (- 1074) (floorLog2 (of_nat k) - 52) = - int j"
    using b by (simp add: fl j_def)
  have p: "(2::rat) powi (- int j) = 1 / 2 ^ j"
    by (simp add: power_int_minus field_simps)
  have q: "(of_nat k :: rat) / 2 powi (- int j) = of_int (int (k * 2 ^ j))"
    by (simp add: p)
  have m: "roundHalfEven ((of_nat k :: rat) / 2 powi (- int j)) = int (k * 2 ^ j)"
    unfolding q by (rule roundHalfEven_of_int)
  have v: "rat_of_nat (k * 2 ^ j) * 2 powi (- int j) = rat_of_nat k"
    by (simp add: p)
  have "(of_nat k :: rat) < 2 ^ 53"
    using assms by (metis of_nat_less_iff of_nat_numeral of_nat_power)
  also have "(2 ^ 53 :: rat) \<le> 2 ^ 1024" by (rule power_increasing) simp_all
  finally have small: "\<not> (2 ^ 1024 :: rat) \<le> of_nat k" by simp
  have pos: "(0::rat) < of_nat k" using False by simp
  show ?thesis
    using False pos small
    by (simp add: roundDouble_def Let_def e m v del: of_nat_mult of_nat_power)
qed

lemma roundDouble_numeral [simp]:
  "numeral n < (2 ^ 53 :: nat) \<Longrightarrow> roundDouble (numeral n) = Fin (numeral n)"
  using roundDouble_of_nat [of "numeral n"] by simp

lemma roundDouble_zero_one [simp]: "roundDouble 0 = Fin 0" "roundDouble 1 = Fin 1"
  using roundDouble_of_nat [of 0] roundDouble_of_nat [of 1] by simp_all

lemma js_add_zero_left [simp]: "js_add (Fin 0) (Fin (of_nat k)) = roundDouble (of_nat k)"
  by simp

lemma bitLength_eq: "2 ^ k \<le> n \<Longrightarrow> n < 2 ^ Suc k \<Longrightarrow> bitLength n = Suc k"
proof (induction k arbitrary: n)
  case 0
  then have "n = 1" by simp
  then show ?case by simp
next
  case (Suc k)
  from Suc.prems have "2 ^ k \<le> n div 2" "n div 2 < 2 ^ Suc k" "n \<noteq> 0" by auto
  with Suc.IH [of "n div 2"] show ?case by (subst bitLength.simps) simp
qed

lemma floorLog2_eq:
  assumes "2 ^ k \<le> a" and "a < 2 ^ Suc k"
  shows "floorLog2 a = int k"
proof -
  have one: "1 \<le> a" using assms(1) by (meson one_le_numeral one_le_power order_trans)
  define n where "n = nat \<lfloor>a\<rfloor>"
  have "0 \<le> \<lfloor>a\<rfloor>" using one by simp
  then have n: "\<lfloor>a\<rfloor> = int n" by (simp add: n_def)
  have "(2::int) ^ k \<le> \<lfloor>a\<rfloor>"
    using assms(1) by (metis le_floor_iff of_int_numeral of_int_power)
  then have "int (2 ^ k) \<le> int n" by (simp add: n)
  then have l: "2 ^ k \<le> n" by (simp only: of_nat_le_iff)
  have "\<lfloor>a\<rfloor> < 2 ^ Suc k"
    using assms(2) by (metis floor_less_iff of_int_numeral of_int_power)
  then have "int n < int (2 ^ Suc k)" by (simp add: n)
  then have u: "n < 2 ^ Suc k" by (simp only: of_nat_less_iff)
  from bitLength_eq [OF l u] one show ?thesis by (simp add: floorLog2_def n_def)
qed

lemma roundDouble_positive:
  assumes "2 ^ k \<le> q" and "q < 2 ^ Suc k"
    and "roundHalfEven (q / 2 powi (int k - 52)) = m"
    and "of_int m * 2 powi (int k - 52) = v"
  shows "roundDouble q = (if 2 ^ 1024 \<le> v then PosInf else Fin v)"
proof -
  have pos: "0 < q" using assms(1) by (meson less_le_trans zero_less_numeral zero_less_power)
  then have a: "\<bar>q\<bar> = q" "q \<noteq> 0" by simp_all
  have e: "max (- 1074) (floorLog2 q - 52) = int k - 52"
    by (simp add: floorLog2_eq [OF assms(1,2)])
  show ?thesis
    unfolding roundDouble_def Let_def a(1) e assms(3) assms(4) using pos by simp
qed

subsection \<open>Lazy creation\<close>

lemma lazyCreate_found:
  "findAssignment n (assignmentStatuses (heap w ! sid)) = Some i \<Longrightarrow> lazyCreate sid n w = (i, w)"
  by (simp add: lazyCreate_def)

lemma lazyCreate_missing:
  assumes "sid < length (heap w)"
    and "findAssignment n (assignmentStatuses (heap w ! sid)) = None"
  shows "lazyCreate sid n w = (length (assignmentStatuses (heap w ! sid)), pushReleased sid n w)"
  using assms
  by (simp add: lazyCreate_def Let_def notifyObserver_def notifyVia_def getA_def
      pushReleased_def newAssignment_def)

subsection \<open>Outstanding work\<close>

lemma foldl_outstandingAny:
  "foldl outstandingAny acc ss = acc @ map fullName (filter hasOutstanding ss)"
  by (induction ss arbitrary: acc)
     (auto simp: outstandingAny_def hasOutstanding_def list_ex_iff)

lemma hasOutstanding_nonempty: "hasOutstanding s \<Longrightarrow> assignmentStatuses s \<noteq> []"
  by (auto simp: hasOutstanding_def)

subsection \<open>Sums of grades\<close>

lemma foldl_grades:
  "foldl (\<lambda>sum a. case grade a of None \<Rightarrow> sum | Some g \<Rightarrow> js_add sum g) acc as
     = foldl js_add acc (List.map_filter grade as)"
proof (induction as arbitrary: acc)
  case Nil
  show ?case by simp
next
  case (Cons a as)
  show ?case by (cases "grade a") (simp_all add: Cons.IH)
qed

lemma map_filter_filter_grade:
  "List.map_filter grade (filter (\<lambda>a. grade a \<noteq> None) as) = List.map_filter grade as"
  by (induction as) auto

lemma length_filter_grade:
  "length (filter (\<lambda>a. grade a \<noteq> None) as) = length (List.map_filter grade as)"
  by (induction as) auto

lemma getGrade_doubleSum:
  "snd (getGrade s) =
     (if presentGrades s = [] then None
      else Some (js_div_len (doubleSum (presentGrades s)) (length (presentGrades s))))"
proof -
  let ?gs = "filter (\<lambda>a. grade a \<noteq> None) (assignmentStatuses s)"
  have len: "length ?gs = length (presentGrades s)"
    unfolding presentGrades_def by (rule length_filter_grade)
  have tot: "foldl (\<lambda>sum a. case grade a of None \<Rightarrow> sum | Some g \<Rightarrow> js_add sum g) (Fin 0) ?gs
               = doubleSum (presentGrades s)"
    unfolding presentGrades_def doubleSum_def foldl_grades map_filter_filter_grade by simp
  show ?thesis
  proof (cases "presentGrades s = []")
    case True
    with len have "length ?gs = 0" by simp
    then show ?thesis using True
      unfolding getGrade_def recalculateOverallGrade_def Let_def by simp
  next
    case False
    with len have "length ?gs \<noteq> 0" by simp
    then show ?thesis using False
      unfolding getGrade_def recalculateOverallGrade_def Let_def tot len by simp
  qed
qed

lemma foldl_js_add_nat:
  "acc + sum_list ks < 2 ^ 53 \<Longrightarrow>
     foldl js_add (Fin (of_nat acc)) (map (\<lambda>k. Fin (of_nat k)) ks)
       = Fin (of_nat (acc + sum_list ks))"
proof (induction ks arbitrary: acc)
  case Nil
  show ?case by simp
next
  case (Cons k ks)
  from Cons.prems have "acc + k < 2 ^ 53" by simp
  then have "js_add (Fin (of_nat acc)) (Fin (of_nat k)) = Fin (of_nat (acc + k))"
    using roundDouble_of_nat [of "acc + k"] by simp
  moreover from Cons.prems have "(acc + k) + sum_list ks < 2 ^ 53" by simp
  ultimately show ?case using Cons.IH [of "acc + k"] by (simp add: add.assoc)
qed

lemma doubleSum_nat:
  assumes "sum_list ks < 2 ^ 53"
  shows "doubleSum (map (\<lambda>k. Fin (of_nat k)) ks) = Fin (of_nat (sum_list ks))"
  using foldl_js_add_nat [of 0 ks] assms by (simp add: doubleSum_def)

lemma sum_list_of_nat: "sum_list (map of_nat ks) = (of_nat (sum_list ks) :: rat)"
  by (induction ks) simp_all

lemma roundDouble_five_thirds:
  "roundDouble (5 / 3) = Fin (7505999378950827 / 4503599627370496)"
  by code_simp

lemma maxDouble_bounds:
  "2 ^ 1023 \<le> maxDouble" "maxDouble < 2 ^ Suc 1023"
  "2 ^ 1024 \<le> maxDouble + maxDouble" "maxDouble + maxDouble < 2 ^ Suc 1024"
  by (simp_all add: maxDouble_def)

lemma maxDouble_quotients:
  "maxDouble / 2 powi (int 1023 - 52) = of_int (2 ^ 53 - 1)"
  "(maxDouble + maxDouble) / 2 powi (int 1024 - 52) = of_int (2 ^ 53 - 1)"
  "of_int (2 ^ 53 - 1) * 2 powi (int 1023 - 52) = maxDouble"
  "of_int (2 ^ 53 - 1) * 2 powi (int 1024 - 52) = maxDouble + maxDouble"
  by (simp_all add: maxDouble_def)

lemma roundDouble_maxDouble: "roundDouble maxDouble = Fin maxDouble"
proof -
  have m: "roundHalfEven (maxDouble / 2 powi (int 1023 - 52)) = 2 ^ 53 - 1"
    unfolding maxDouble_quotients(1) by (rule roundHalfEven_of_int)
  from roundDouble_positive [OF maxDouble_bounds(1,2) m maxDouble_quotients(3)]
    maxDouble_bounds(2)
  show ?thesis by simp
qed

lemma roundDouble_maxDouble_plus: "roundDouble (maxDouble + maxDouble) = PosInf"
proof -
  have m: "roundHalfEven ((maxDouble + maxDouble) / 2 powi (int 1024 - 52)) = 2 ^ 53 - 1"
    unfolding maxDouble_quotients(2) by (rule roundHalfEven_of_int)
  from roundDouble_positive [OF maxDouble_bounds(3,4) m maxDouble_quotients(4)]
    maxDouble_bounds(3)
  show ?thesis by simp
qed

lemma roundDouble_twice_maxDouble: "roundDouble (2 * maxDouble) = PosInf"
  using roundDouble_maxDouble_plus by (simp only: mult_2)

subsection \<open>What the primitive operations leave alone\<close>

lemma notifyVia_fields [simp]:
  "heap (notifyVia ob sid i r w) = heap w"
  "timers (notifyVia ob sid i r w) = timers w"
  "nextId (notifyVia ob sid i r w) = nextId w"
  by (simp_all add: notifyVia_def)

lemma notifyObserver_fields [simp]:
  "heap (notifyObserver sid i r w) = heap w"
  "timers (notifyObserver sid i r w) = timers w"
  "nextId (notifyObserver sid i r w) = nextId w"
  by (simp_all add: notifyObserver_def)

lemma clearTimeout_fields [simp]:
  "heap (clearTimeout h w) = heap w"
  "nextId (clearTimeout h w) = nextId w"
  "console (clearTimeout h w) = console w"
  "timers (clearTimeout h w) = filter (\<lambda>p. fst p \<noteq> h) (timers w)"
  by (simp_all add: clearTimeout_def)

lemma setTimeout_fields [simp]:
  "fst (setTimeout t w) = nextId w"
  "heap (snd (setTimeout t w)) = heap w"
  "console (snd (setTimeout t w)) = console w"
  "nextId (snd (setTimeout t w)) = Suc (nextId w)"
  "timers (snd (setTimeout t w)) = timers w @ [(nextId w, t)]"
  by (simp_all add: setTimeout_def)

lemma modA_fields [simp]:
  "timers (modA sid i f w) = timers w"
  "nextId (modA sid i f w) = nextId w"
  "console (modA sid i f w) = console w"
  "length (heap (modA sid i f w)) = length (heap w)"
  by (simp_all add: modA_def)

lemma recalc_fields [simp]:
  "timers (recalc sid w) = timers w"
  "nextId (recalc sid w) = nextId w"
  "console (recalc sid w) = console w"
  "length (heap (recalc sid w)) = length (heap w)"
  by (simp_all add: recalc_def)

lemma recalculate_fields [simp]:
  "assignmentStatuses (recalculateOverallGrade s) = assignmentStatuses s"
  "fullName (recalculateOverallGrade s) = fullName s"
  "observer (recalculateOverallGrade s) = observer s"
  by (simp_all add: recalculateOverallGrade_def Let_def)

lemma getA_heap_cong: "heap w' = heap w \<Longrightarrow> getA w' sid i = getA w sid i"
  by (simp add: getA_def)

lemma getA_simps [simp]:
  "getA (notifyVia ob sid i r w) = getA w"
  "getA (notifyObserver sid i r w) = getA w"
  "getA (clearTimeout h w) = getA w"
  "getA (snd (setTimeout t w)) = getA w"
  by (rule ext, rule ext, simp add: getA_def)+

lemma student_modA:
  "heap (modA sid i f w) ! sid' =
     (if sid' = sid \<and> sid < length (heap w)
      then (heap w ! sid)\<lparr>assignmentStatuses :=
              (assignmentStatuses (heap w ! sid))[i := f (getA w sid i)]\<rparr>
      else heap w ! sid')"
  by (cases "sid < length (heap w)") (auto simp: modA_def not_less list_update_beyond)

lemma modA_student_fields [simp]:
  "fullName (heap (modA sid i f w) ! sid') = fullName (heap w ! sid')"
  "observer (heap (modA sid i f w) ! sid') = observer (heap w ! sid')"
  "length (assignmentStatuses (heap (modA sid i f w) ! sid'))
     = length (assignmentStatuses (heap w ! sid'))"
  by (simp_all add: student_modA)

lemma getA_modA:
  "getA (modA sid i f w) sid' i' =
     (if sid' = sid \<and> i' = i \<and> sid < length (heap w)
         \<and> i < length (assignmentStatuses (heap w ! sid))
      then f (getA w sid i) else getA w sid' i')"
  by (auto simp: getA_def student_modA nth_list_update not_less list_update_beyond)

lemma student_recalc:
  "heap (recalc sid w) ! sid' =
     (if sid' = sid \<and> sid < length (heap w) then recalculateOverallGrade (heap w ! sid)
      else heap w ! sid')"
  by (cases "sid < length (heap w)") (auto simp: recalc_def not_less list_update_beyond)

lemma recalc_student_fields [simp]:
  "fullName (heap (recalc sid w) ! sid') = fullName (heap w ! sid')"
  "observer (heap (recalc sid w) ! sid') = observer (heap w ! sid')"
  "assignmentStatuses (heap (recalc sid w) ! sid') = assignmentStatuses (heap w ! sid')"
  by (simp_all add: student_recalc)

lemma getA_recalc [simp]: "getA (recalc sid w) = getA w"
  by (rule ext, rule ext, simp add: getA_def)

lemma findAssignment_Some:
  "findAssignment n as = Some i \<Longrightarrow> i < length as \<and> assignmentName (as ! i) = n"
  by (induction as arbitrary: i) (auto split: if_splits)

lemma findAssignment_None:
  "findAssignment n as = None \<longleftrightarrow> (\<forall>a \<in> set as. assignmentName a \<noteq> n)"
  by (induction as) auto

lemma pushReleased_fields [simp]:
  "timers (pushReleased sid n w) = timers w"
  "nextId (pushReleased sid n w) = nextId w"
  "length (heap (pushReleased sid n w)) = length (heap w)"
  by (simp_all add: pushReleased_def)

lemma student_pushReleased:
  "heap (pushReleased sid n w) ! sid' =
     (if sid' = sid \<and> sid < length (heap w)
      then (heap w ! sid)\<lparr>assignmentStatuses :=
              assignmentStatuses (heap w ! sid) @ [newAssignment n]\<rparr>
      else heap w ! sid')"
  by (cases "sid < length (heap w)") (auto simp: pushReleased_def not_less list_update_beyond)

lemma pushReleased_student_fields [simp]:
  "fullName (heap (pushReleased sid n w) ! sid') = fullName (heap w ! sid')"
  "observer (heap (pushReleased sid n w) ! sid') = observer (heap w ! sid')"
  by (simp_all add: student_pushReleased)

lemma getA_pushReleased_old:
  "i' < length (assignmentStatuses (heap w ! sid')) \<Longrightarrow>
     getA (pushReleased sid n w) sid' i' = getA w sid' i'"
  by (auto simp: getA_def student_pushReleased nth_append)


text \<open>The two ways \<open>lazyCreate\<close> can go.\<close>

lemma lazyCreate_cases:
  assumes "sid < length (heap w)"
  obtains (found) i where "findAssignment n (assignmentStatuses (heap w ! sid)) = Some i"
      and "i < length (assignmentStatuses (heap w ! sid))"
      and "lazyCreate sid n w = (i, w)"
  | (created) "findAssignment n (assignmentStatuses (heap w ! sid)) = None"
      and "lazyCreate sid n w =
             (length (assignmentStatuses (heap w ! sid)), pushReleased sid n w)"
proof (cases "findAssignment n (assignmentStatuses (heap w ! sid))")
  case None
  with assms show ?thesis by (auto intro: created simp: lazyCreate_missing)
next
  case (Some i)
  then show ?thesis by (auto intro: found simp: lazyCreate_found dest: findAssignment_Some)
qed

subsection \<open>The methods, once \<open>lazyCreate\<close> has run\<close>

lemma update_unfold:
  assumes "sid < length (heap w)" and "lazyCreate sid n w = (i, w1)"
  shows "updateAssignmentStatus sid n (JNumber g) w =
           recalc sid (notifyObserver sid i False (modA sid i (setGrade g) w1))"
    and "typeof v \<noteq> ''number'' \<Longrightarrow> updateAssignmentStatus sid n v w = w1"
  using assms by (cases v; simp add: updateAssignmentStatus_def)+

lemma startWorking_unfold:
  assumes "sid < length (heap w)" and "lazyCreate sid n w = (i, w1)"
    and "w2 = notifyObserver sid i False (modA sid i (\<lambda>a. a\<lparr>status := Working\<rparr>) w1)"
    and "w3 = (case workTimeoutId (getA w2 sid i) of Some h \<Rightarrow> clearTimeout h w2 | None \<Rightarrow> w2)"
  shows "startWorking sid n w =
           modA sid i (\<lambda>a. a\<lparr>workTimeoutId := Some (nextId w3)\<rparr>)
             (snd (setTimeout (AutoSubmit sid i n) w3))"
  using assms(1,2) unfolding assms(3,4)
  by (simp add: startWorking_def Let_def setTimeout_def)

lemma submit_unfold:
  assumes "sid < length (heap w)" and "lazyCreate sid n w = (i, w1)"
  shows "submitAssignment sid n w =
           (if status (getA w1 sid i) = Submitted \<or> status (getA w1 sid i) = Pass
               \<or> status (getA w1 sid i) = Fail
            then w1
            else snd (setTimeout (AutoGrade sid i)
                   (notifyObserver sid i False
                      (modA sid i (\<lambda>a. a\<lparr>status := Submitted\<rparr>) (cancelWorkTimer sid i w1)))))"
  using assms by (simp add: submitAssignment_def Let_def)

lemma cancelWorkTimer_fields [simp]:
  "nextId (cancelWorkTimer sid i w) = nextId w"
  "console (cancelWorkTimer sid i w) = console w"
  "length (heap (cancelWorkTimer sid i w)) = length (heap w)"
  "fullName (heap (cancelWorkTimer sid i w) ! sid') = fullName (heap w ! sid')"
  "observer (heap (cancelWorkTimer sid i w) ! sid') = observer (heap w ! sid')"
  "length (assignmentStatuses (heap (cancelWorkTimer sid i w) ! sid'))
     = length (assignmentStatuses (heap w ! sid'))"
  by (simp_all add: cancelWorkTimer_def split: option.splits)

subsection \<open>Invariants of assignments\<close>

lemma allA_heap_eq: "heap w' = heap w \<Longrightarrow> allA P w' = allA P w"
  unfolding allA_def getA_def by simp

lemma allA_simps [simp]:
  "allA P (notifyVia ob sid i r w) = allA P w"
  "allA P (notifyObserver sid i r w) = allA P w"
  "allA P (clearTimeout h w) = allA P w"
  "allA P (snd (setTimeout t w)) = allA P w"
  by (rule allA_heap_eq, simp)+

lemma allA_recalc [simp]: "allA P (recalc sid w) = allA P w"
  by (simp add: allA_def)

















subsection \<open>What a step keeps of an assignment\<close>

lemma relA_refl: "preorderR R \<Longrightarrow> relA R w w"
  by (simp add: relA_def preorderR_def)

lemma relA_trans:
  assumes "preorderR R" and "relA R w1 w2" and "relA R w2 w3"
  shows "relA R w1 w3"
  unfolding relA_def
proof (intro conjI allI impI)
  show "length (heap w1) \<le> length (heap w3)"
    using assms(2,3) by (simp add: relA_def)
next
  fix sid assume s: "sid < length (heap w1)"
  then have s2: "sid < length (heap w2)" using assms(2) by (simp add: relA_def)
  show "length (assignmentStatuses (heap w1 ! sid)) \<le> length (assignmentStatuses (heap w3 ! sid))"
    using assms(2,3) s s2 unfolding relA_def by (meson le_trans)
  fix i assume i: "i < length (assignmentStatuses (heap w1 ! sid))"
  then have i2: "i < length (assignmentStatuses (heap w2 ! sid))"
    using assms(2) s unfolding relA_def by (meson less_le_trans)
  have "R (getA w1 sid i) (getA w2 sid i)" using assms(2) s i by (simp add: relA_def)
  moreover have "R (getA w2 sid i) (getA w3 sid i)" using assms(3) s2 i2 by (simp add: relA_def)
  ultimately show "R (getA w1 sid i) (getA w3 sid i)"
    using assms(1) unfolding preorderR_def by blast
qed

lemma relA_mono:
  assumes "relA R w w'" and "\<And>a b. R a b \<Longrightarrow> R' a b"
  shows "relA R' w w'"
  using assms by (simp add: relA_def)

lemma relA_heap_eq: "preorderR R \<Longrightarrow> heap w' = heap w \<Longrightarrow> relA R w w'"
  by (simp add: relA_def preorderR_def getA_def)

lemma relA_modA:
  assumes "preorderR R"
    and "sid < length (heap w) \<Longrightarrow> i < length (assignmentStatuses (heap w ! sid))
           \<Longrightarrow> R (getA w sid i) (f (getA w sid i))"
  shows "relA R w (modA sid i f w)"
  using assms by (simp add: relA_def getA_modA preorderR_def)

lemma relA_recalc: "preorderR R \<Longrightarrow> relA R w (recalc sid w)"
  by (simp add: relA_def preorderR_def)

lemma relA_pushReleased: "preorderR R \<Longrightarrow> relA R w (pushReleased sid n w)"
  by (simp add: relA_def preorderR_def getA_pushReleased_old student_pushReleased)

lemma relA_lazyCreate:
  assumes "preorderR R" and "sid < length (heap w)"
  shows "relA R w (snd (lazyCreate sid n w))"
  using assms(2)
proof (cases rule: lazyCreate_cases [where n = n])
  case (found i)
  with assms show ?thesis by (simp add: relA_refl)
next
  case created
  with assms show ?thesis by (simp add: relA_pushReleased)
qed

lemma preorderR_keeps: "preorderR (keeps kg ks)"
  unfolding preorderR_def keeps_def by auto

lemma keeps_weaken: "keeps True True a b \<Longrightarrow> keeps kg ks a b"
  by (simp add: keeps_def)

lemma keeps_timeout [simp]: "keeps kg ks a (a\<lparr>workTimeoutId := x\<rparr>)"
  by (simp add: keeps_def)

lemma keeps_status_weak [simp]: "keeps kg False a (a\<lparr>status := st\<rparr>)"
  by (simp add: keeps_def)

lemma keeps_status:
  "status a \<noteq> Pass \<Longrightarrow> status a \<noteq> Fail \<Longrightarrow> keeps kg ks a (a\<lparr>status := st\<rparr>)"
  by (simp add: keeps_def)

lemma keeps_setGrade_fresh: "\<not> graded a \<Longrightarrow> keeps kg ks a (setGrade g a)"
  by (simp add: keeps_def setGrade_def)

lemma keeps_setGrade_again [simp]: "keeps False False a (setGrade g a)"
  by (simp add: keeps_def setGrade_def)

lemmas relK_trans = relA_trans [OF preorderR_keeps]

lemma relK_cancelWorkTimer: "relA (keeps kg ks) w (cancelWorkTimer sid i w)"
proof (cases "workTimeoutId (getA w sid i)")
  case None
  then show ?thesis by (simp add: cancelWorkTimer_def relA_refl preorderR_keeps)
next
  case (Some h)
  have "relA (keeps kg ks) w (clearTimeout h w)"
    by (simp add: relA_heap_eq preorderR_keeps)
  moreover have "relA (keeps kg ks) (clearTimeout h w)
      (modA sid i (\<lambda>a. a\<lparr>workTimeoutId := None\<rparr>) (clearTimeout h w))"
    by (rule relA_modA [OF preorderR_keeps]) simp
  ultimately show ?thesis using Some by (simp add: cancelWorkTimer_def relK_trans)
qed

lemma status_cancelWorkTimer [simp]:
  "status (getA (cancelWorkTimer sid i w) sid' i') = status (getA w sid' i')"
  "graded (getA (cancelWorkTimer sid i w) sid' i') = graded (getA w sid' i')"
  "grade (getA (cancelWorkTimer sid i w) sid' i') = grade (getA w sid' i')"
  "assignmentName (getA (cancelWorkTimer sid i w) sid' i') = assignmentName (getA w sid' i')"
  by (simp_all add: cancelWorkTimer_def getA_modA split: option.splits)

lemma relK_update_other:
  assumes "typeof v \<noteq> ''number''"
  shows "relA (keeps kg ks) w (updateAssignmentStatus sid n v w)"
proof (cases "sid < length (heap w)")
  case False
  then show ?thesis by (simp add: updateAssignmentStatus_def relA_refl preorderR_keeps)
next
  case True
  obtain i w1 where l: "lazyCreate sid n w = (i, w1)" by force
  with relA_lazyCreate [OF preorderR_keeps True, of kg ks n]
  show ?thesis by (simp add: update_unfold(2) [OF True l assms])
qed

lemma relK_update_number:
  "relA (keeps False False) w (updateAssignmentStatus sid n (JNumber g) w)"
proof (cases "sid < length (heap w)")
  case False
  then show ?thesis by (simp add: updateAssignmentStatus_def relA_refl preorderR_keeps)
next
  case True
  obtain i w1 where l: "lazyCreate sid n w = (i, w1)" by force
  with relA_lazyCreate [OF preorderR_keeps True, of False False n]
  have 1: "relA (keeps False False) w w1" by simp
  have 2: "relA (keeps False False) w1 (modA sid i (setGrade g) w1)"
    by (rule relA_modA [OF preorderR_keeps]) simp
  have 3: "relA (keeps False False) (modA sid i (setGrade g) w1)
             (recalc sid (notifyObserver sid i False (modA sid i (setGrade g) w1)))"
    by (simp add: relA_def keeps_def)
  show ?thesis
    unfolding update_unfold(1) [OF True l] using 1 2 3 by (blast intro: relK_trans)
qed

lemma relK_submit: "relA (keeps kg ks) w (submitAssignment sid n w)"
proof (cases "sid < length (heap w)")
  case False
  then show ?thesis by (simp add: submitAssignment_def relA_refl preorderR_keeps)
next
  case True
  obtain i w1 where l: "lazyCreate sid n w = (i, w1)" by force
  with relA_lazyCreate [OF preorderR_keeps True, of kg ks n]
  have 1: "relA (keeps kg ks) w w1" by simp
  show ?thesis
  proof (cases "status (getA w1 sid i) = Submitted \<or> status (getA w1 sid i) = Pass
               \<or> status (getA w1 sid i) = Fail")
    case True
    with 1 show ?thesis by (simp add: submit_unfold [OF \<open>sid < length (heap w)\<close> l])
  next
    case False
    let ?w2 = "cancelWorkTimer sid i w1"
    let ?w3 = "modA sid i (\<lambda>a. a\<lparr>status := Submitted\<rparr>) ?w2"
    have 2: "relA (keeps kg ks) w1 ?w2" by (rule relK_cancelWorkTimer)
    have 3: "relA (keeps kg ks) ?w2 ?w3"
      using False by (intro relA_modA [OF preorderR_keeps] keeps_status) simp_all
    have 4: "relA (keeps kg ks) ?w3
               (snd (setTimeout (AutoGrade sid i) (notifyObserver sid i False ?w3)))"
      by (simp add: relA_heap_eq preorderR_keeps)
    show ?thesis
      unfolding submit_unfold [OF \<open>sid < length (heap w)\<close> l] using False 1 2 3 4
      by (simp only: if_False) (blast intro: relK_trans)
  qed
qed

lemma relK_startWorking: "relA (keeps kg False) w (startWorking sid n w)"
proof (cases "sid < length (heap w)")
  case False
  then show ?thesis by (simp add: startWorking_def relA_refl preorderR_keeps)
next
  case True
  obtain i w1 where l: "lazyCreate sid n w = (i, w1)" by force
  with relA_lazyCreate [OF preorderR_keeps True, of kg False n]
  have 1: "relA (keeps kg False) w w1" by simp
  define w2 where "w2 = notifyObserver sid i False (modA sid i (\<lambda>a. a\<lparr>status := Working\<rparr>) w1)"
  define w3 where "w3 = (case workTimeoutId (getA w2 sid i) of
                     Some h \<Rightarrow> clearTimeout h w2
                   | None \<Rightarrow> w2)"
  have "relA (keeps kg False) w1 (modA sid i (\<lambda>a. a\<lparr>status := Working\<rparr>) w1)"
    by (rule relA_modA [OF preorderR_keeps]) simp
  moreover have "relA (keeps kg False) (modA sid i (\<lambda>a. a\<lparr>status := Working\<rparr>) w1) w2"
    by (simp add: w2_def relA_heap_eq preorderR_keeps)
  ultimately have 2: "relA (keeps kg False) w1 w2" by (rule relK_trans)
  have 3: "relA (keeps kg False) w2 w3"
    by (simp add: w3_def relA_heap_eq preorderR_keeps split: option.splits)
  have 4: "relA (keeps kg False) w3 (snd (setTimeout (AutoSubmit sid i n) w3))"
    by (simp add: relA_heap_eq preorderR_keeps)
  have 5: "relA (keeps kg False) (snd (setTimeout (AutoSubmit sid i n) w3))
            (modA sid i (\<lambda>a. a\<lparr>workTimeoutId := Some (nextId w3)\<rparr>)
               (snd (setTimeout (AutoSubmit sid i n) w3)))"
    by (rule relA_modA [OF preorderR_keeps]) simp
  show ?thesis
    unfolding startWorking_unfold [OF True l w2_def w3_def] using 1 2 3 4 5
    by (blast intro: relK_trans)
qed

lemma relK_runTask: "relA (keeps kg ks) w (runTask t r w)"
proof (cases t)
  case (AutoSubmit sid i n)
  then show ?thesis by (simp add: runTask_def relK_submit relA_refl preorderR_keeps)
next
  case (AutoGrade sid i)
  show ?thesis
  proof (cases "graded (getA w sid i)")
    case True
    with AutoGrade show ?thesis by (simp add: runTask_def relA_refl preorderR_keeps)
  next
    case False
    let ?w1 = "modA sid i (setGrade (Fin (of_nat r))) w"
    have 1: "relA (keeps kg ks) w ?w1"
      using False by (intro relA_modA [OF preorderR_keeps] keeps_setGrade_fresh)
    have 2: "relA (keeps kg ks) ?w1 (recalc sid (notifyObserver sid i False ?w1))"
      by (simp add: relA_def keeps_def)
    from 1 2 have "relA (keeps kg ks) w (recalc sid (notifyObserver sid i False ?w1))"
      by (rule relK_trans)
    with AutoGrade False show ?thesis by (simp add: runTask_def)
  qed
qed

lemma relK_fire: "relA (keeps kg ks) w (fire h r w)"
proof (cases "map_of (timers w) h")
  case None
  then show ?thesis by (simp add: fire_def relA_refl preorderR_keeps)
next
  case (Some t)
  have "relA (keeps kg ks) w (clearTimeout h w)"
    by (simp add: relA_heap_eq preorderR_keeps)
  then have "relA (keeps kg ks) w (runTask t r (clearTimeout h w))"
    using relK_runTask by (rule relK_trans)
  with Some show ?thesis by (simp add: fire_def)
qed

lemma relK_remindStudent: "relA (keeps kg False) w (remindStudent ob out n w sid)"
proof -
  define w1 where "w1 = (case findAssignment n (assignmentStatuses (heap w ! sid)) of
                     None \<Rightarrow> updateAssignmentStatus sid n JUndefined w
                   | Some i \<Rightarrow> w)"
  have 1: "relA (keeps kg False) w w1"
    unfolding w1_def
    by (simp add: relK_update_other relA_refl preorderR_keeps split: option.splits)
  have "relA (keeps kg False) w (submitAssignment sid n (cancelWorkTimer sid i
          (notifyVia ob sid i True (modA sid i (\<lambda>a. a\<lparr>status := FinalReminder\<rparr>) w1))))" for i
  proof -
    let ?m = "modA sid i (\<lambda>a. a\<lparr>status := FinalReminder\<rparr>) w1"
    let ?w2 = "notifyVia ob sid i True ?m"
    have "relA (keeps kg False) w1 ?m"
      by (rule relA_modA [OF preorderR_keeps]) simp
    moreover have "relA (keeps kg False) ?m ?w2"
      by (simp add: relA_heap_eq preorderR_keeps)
    ultimately have 2: "relA (keeps kg False) w1 ?w2" by (rule relK_trans)
    have 3: "relA (keeps kg False) ?w2 (cancelWorkTimer sid i ?w2)"
      by (rule relK_cancelWorkTimer)
    have 4: "relA (keeps kg False) (cancelWorkTimer sid i ?w2)
               (submitAssignment sid n (cancelWorkTimer sid i ?w2))"
      by (rule relK_submit)
    from 1 2 3 4 show ?thesis by (blast intro: relK_trans)
  qed
  with 1 show ?thesis
    by (simp add: remindStudent_def Let_def w1_def [symmetric] relA_refl preorderR_keeps
        split: option.splits)
qed

lemma relK_sendReminder: "relA (keeps kg False) w (sendReminder ids ob n w)"
proof -
  have "relA (keeps kg False) w (foldl (remindStudent ob out n) w ids)" for out
  proof (induction ids arbitrary: w)
    case Nil
    show ?case by (simp add: relA_refl preorderR_keeps)
  next
    case (Cons sid ids)
    have "relA (keeps kg False) w (remindStudent ob out n w sid)"
      by (rule relK_remindStudent)
    then show ?case using Cons.IH by (simp add: relK_trans)
  qed
  then show ?thesis by (simp add: sendReminder_def)
qed

subsection \<open>The timer invariant\<close>

lemma timersOkI:
  assumes "distinct (map fst (timers w))"
    and "\<And>p. p \<in> set (timers w) \<Longrightarrow> fst p < nextId w"
    and "\<And>h sid i n. (h, AutoSubmit sid i n) \<in> set (timers w) \<Longrightarrow>
           sid < length (heap w) \<and> i < length (assignmentStatuses (heap w ! sid))
           \<and> workTimeoutId (getA w sid i) = Some h"
  shows "timersOk w"
  using assms unfolding timersOk_def by blast



lemma timersOk_submitD:
  assumes "timersOk w" and "(h, AutoSubmit sid i n) \<in> set (timers w)"
  shows "sid < length (heap w)" and "i < length (assignmentStatuses (heap w ! sid))"
    and "workTimeoutId (getA w sid i) = Some h"
  using assms unfolding timersOk_def by blast+

lemma preorderR_sameW: "preorderR sameW"
  by (simp add: preorderR_def sameW_def)

lemmas relW_trans = relA_trans [OF preorderR_sameW]

lemma timersOk_rel:
  assumes "timersOk w" and "relA sameW w w'" and "timers w' = timers w"
    and "nextId w' = nextId w"
  shows "timersOk w'"
proof (rule timersOkI)
  show "distinct (map fst (timers w'))" using assms by (simp add: timersOk_def)
next
  fix p assume "p \<in> set (timers w')"
  then show "fst p < nextId w'" using assms by (simp add: timersOk_def)
next
  fix h sid i n assume "(h, AutoSubmit sid i n) \<in> set (timers w')"
  then have m: "(h, AutoSubmit sid i n) \<in> set (timers w)" using assms(3) by simp
  note d = timersOk_submitD [OF assms(1) m]
  from assms(2) d(1,2) have "sid < length (heap w')"
    "i < length (assignmentStatuses (heap w' ! sid))" "sameW (getA w sid i) (getA w' sid i)"
    unfolding relA_def by (force+)
  with d(3) show "sid < length (heap w') \<and> i < length (assignmentStatuses (heap w' ! sid))
      \<and> workTimeoutId (getA w' sid i) = Some h"
    by (simp add: sameW_def)
qed

lemma timersOk_heap_eq:
  "timersOk w \<Longrightarrow> heap w' = heap w \<Longrightarrow> timers w' = timers w \<Longrightarrow> nextId w' = nextId w
     \<Longrightarrow> timersOk w'"
  by (erule timersOk_rel) (simp_all add: relA_heap_eq preorderR_sameW)

lemma timersOk_notify [simp]:
  "timersOk (notifyVia ob sid i r w) = timersOk w"
  "timersOk (notifyObserver sid i r w) = timersOk w"
  by (simp_all add: timersOk_def)

lemma timersOk_recalc [simp]: "timersOk (recalc sid w) = timersOk w"
  by (simp add: timersOk_def)



lemma lazyCreate_fields:
  assumes "sid < length (heap w)" and "lazyCreate sid n w = (i, w1)"
  shows "i < length (assignmentStatuses (heap w1 ! sid))"
    and "length (heap w1) = length (heap w)"
    and "timers w1 = timers w" and "nextId w1 = nextId w"
  using assms(1)
  by (cases rule: lazyCreate_cases [where n = n]; use assms in \<open>auto simp: student_pushReleased\<close>)+


lemma noAutoSubmit_None:
  assumes "timersOk w" and "workTimeoutId (getA w sid i) = None"
  shows "noAutoSubmit sid i w"
  unfolding noAutoSubmit_def
proof (intro allI notI)
  fix h n assume "(h, AutoSubmit sid i n) \<in> set (timers w)"
  from timersOk_submitD(3) [OF assms(1) this] assms(2) show False by simp
qed

lemma noAutoSubmit_clear:
  assumes "timersOk w" and "workTimeoutId (getA w sid i) = Some h"
  shows "noAutoSubmit sid i (clearTimeout h w)"
  unfolding noAutoSubmit_def
proof (intro allI notI)
  fix h' n assume "(h', AutoSubmit sid i n) \<in> set (timers (clearTimeout h w))"
  then have m: "(h', AutoSubmit sid i n) \<in> set (timers w)" and "h' \<noteq> h" by simp_all
  with timersOk_submitD(3) [OF assms(1) m] assms(2) show False by simp
qed

lemma noAutoSubmit_cancel:
  assumes "timersOk w"
  shows "noAutoSubmit sid i (cancelWorkTimer sid i w)"
proof (cases "workTimeoutId (getA w sid i)")
  case None
  with noAutoSubmit_None [OF assms None] show ?thesis by (simp add: cancelWorkTimer_def)
next
  case (Some h)
  with noAutoSubmit_clear [OF assms Some] show ?thesis
    by (simp add: cancelWorkTimer_def noAutoSubmit_def)
qed











subsection \<open>Example runs\<close>

lemmas exec_defs =
  init_def ada_def newStudent_def newAssignment_def setGrade_def getA_def modA_def
  setTimeout_def clearTimeout_def notifyVia_def notifyObserver_def lazyCreate_def recalc_def
  recalculateOverallGrade_def updateAssignmentStatus_def startWorking_def cancelWorkTimer_def
  submitAssignment_def runTask_def fire_def Let_def

lemma reachable_run: "reachable w \<Longrightarrow> list_all drawOk as \<Longrightarrow> reachable (run as w)"
  by (induction as arbitrary: w) (auto intro: reach_step)

lemma gradedOnce_eq:
  "gradedOnce =
     \<lparr>heap = [\<lparr>fullName = ''Ada'', email = ''ada@example.org'',
               assignmentStatuses =
                 [\<lparr>assignmentName = ''HW2'', status = Pass, grade = Some (Fin 80),
                   graded = True, workTimeoutId = None\<rparr>],
               overallGrade = Some (Fin 80), observer = ObsNotify\<rparr>],
      timers = [], nextId = 1,
      console = [(''Ada'', ''HW2'', Released, False), (''Ada'', ''HW2'', Pass, False)]\<rparr>"
  by (simp add: gradedOnce_def exec_defs)



lemma reachable_examples:
  "reachable gradedOnce" "reachable gradedThenWorking" "reachable workSubmitWork"
  unfolding gradedOnce_def gradedThenWorking_def workSubmitWork_def
  by (rule reachable_run [OF reach_init], simp add: ada_def)+

subsection \<open>Steps\<close>

lemma relA_student_update:
  assumes "preorderR R" and "assignmentStatuses s' = assignmentStatuses (heap w ! sid)"
  shows "relA R w (w\<lparr>heap := (heap w)[sid := s']\<rparr>)"
proof (cases "sid < length (heap w)")
  case True
  with assms show ?thesis by (auto simp: relA_def preorderR_def getA_def nth_list_update)
next
  case False
  with assms show ?thesis
    by (simp add: relA_def preorderR_def getA_def not_less list_update_beyond)
qed

lemma relA_newStudent: "preorderR R \<Longrightarrow> relA R w (w\<lparr>heap := heap w @ [s]\<rparr>)"
  by (simp add: relA_def preorderR_def getA_def nth_append)

lemma relK_step:
  "relA (keeps (\<not> regrades a) (\<not> regrades a \<and> \<not> forcesStatus a)) w (step a w)"
proof (cases a)
  case (NewStudent n e ob)
  then show ?thesis by (simp add: relA_newStudent preorderR_keeps)
next
  case (SetFullName sid n)
  then show ?thesis by (simp add: relA_student_update relA_refl preorderR_keeps)
next
  case (SetEmail sid e)
  then show ?thesis by (simp add: relA_student_update relA_refl preorderR_keeps)
next
  case (UpdateAssignmentStatus sid n v)
  show ?thesis
  proof (cases "typeof v = ''number''")
    case True
    then obtain g where "v = JNumber g" by (cases v) simp_all
    with UpdateAssignmentStatus show ?thesis by (simp add: relK_update_number)
  next
    case False
    with UpdateAssignmentStatus show ?thesis by (simp add: relK_update_other)
  qed
next
  case (StartWorking sid n)
  then show ?thesis by (simp add: relK_startWorking)
next
  case (SubmitAssignment sid n)
  then show ?thesis by (simp add: relK_submit)
next
  case (GetGrade sid)
  then show ?thesis by (simp add: relA_recalc relA_refl preorderR_keeps)
next
  case (SendReminder ids ob n)
  then show ?thesis by (simp add: relK_sendReminder)
next
  case (Fire h r)
  then show ?thesis by (simp add: relK_fire)
qed

subsection \<open>Timers\<close>





subsection \<open>Observers that cannot be notified\<close>

lemma world_eqI:
  "heap w = heap w' \<Longrightarrow> timers w = timers w' \<Longrightarrow> nextId w = nextId w'
     \<Longrightarrow> console w = console w' \<Longrightarrow> (w::world) = w'"
  by simp

lemma silenced_fields [simp]:
  "timers (silenced sid ob c w) = timers w"
  "nextId (silenced sid ob c w) = nextId w"
  "console (silenced sid ob c w) = c"
  "length (heap (silenced sid ob c w)) = length (heap w)"
  "heap (silenced sid ob c w) = (heap w)[sid := (heap w ! sid)\<lparr>observer := ob\<rparr>]"
  by (simp_all add: silenced_def setObserver_def)

lemma student_silenced:
  "heap (silenced sid ob c w) ! k =
     (if k = sid \<and> sid < length (heap w) then (heap w ! sid)\<lparr>observer := ob\<rparr> else heap w ! k)"
  by (cases "sid < length (heap w)") (auto simp: not_less list_update_beyond)

lemma silenced_student_fields [simp]:
  "fullName (heap (silenced sid ob c w) ! k) = fullName (heap w ! k)"
  "assignmentStatuses (heap (silenced sid ob c w) ! k) = assignmentStatuses (heap w ! k)"
  unfolding student_silenced by simp_all

lemma getA_silenced [simp]: "getA (silenced sid ob c w) = getA w"
  by (rule ext, rule ext) (simp add: getA_def del: silenced_fields(5))

lemma heap_eqI:
  assumes "length xs = length ys" and "\<And>k. k < length xs \<Longrightarrow> xs ! k = ys ! k"
  shows "xs = ys"
  using assms by (rule nth_equalityI)

lemma modA_silenced:
  "modA sid' i f (silenced sid ob c w) = silenced sid ob c (modA sid' i f w)"
proof (rule world_eqI)
  show "heap (modA sid' i f (silenced sid ob c w)) = heap (silenced sid ob c (modA sid' i f w))"
  proof (rule heap_eqI)
    fix k assume "k < length (heap (modA sid' i f (silenced sid ob c w)))"
    then have k: "k < length (heap w)" by simp
    show "heap (modA sid' i f (silenced sid ob c w)) ! k
            = heap (silenced sid ob c (modA sid' i f w)) ! k"
      using k by (simp add: student_modA student_silenced del: silenced_fields(5))
  qed simp
qed simp_all

lemma recalc_silenced:
  "recalc sid' (silenced sid ob c w) = silenced sid ob c (recalc sid' w)"
proof (rule world_eqI)
  show "heap (recalc sid' (silenced sid ob c w)) = heap (silenced sid ob c (recalc sid' w))"
  proof (rule heap_eqI)
    fix k assume "k < length (heap (recalc sid' (silenced sid ob c w)))"
    then have k: "k < length (heap w)" by simp
    show "heap (recalc sid' (silenced sid ob c w)) ! k
            = heap (silenced sid ob c (recalc sid' w)) ! k"
      using k by (simp add: student_recalc student_silenced recalculateOverallGrade_def Let_def
          del: silenced_fields(5))
  qed simp
qed simp_all

lemma clearTimeout_silenced:
  "clearTimeout h (silenced sid ob c w) = silenced sid ob c (clearTimeout h w)"
  by (rule world_eqI) simp_all

lemma setTimeout_silenced:
  "snd (setTimeout t (silenced sid ob c w)) = silenced sid ob c (snd (setTimeout t w))"
  by (rule world_eqI) simp_all

lemma cancelWorkTimer_silenced:
  "cancelWorkTimer sid' i (silenced sid ob c w) = silenced sid ob c (cancelWorkTimer sid' i w)"
  by (simp add: cancelWorkTimer_def modA_silenced clearTimeout_silenced split: option.splits)

lemma notifyObserver_silenced:
  assumes "\<not> canNotify ob" and "sid < length (heap w)"
  shows "notifyObserver sid i r (silenced sid ob c w) = silenced sid ob c (notifyObserver sid i r w)"
proof (rule world_eqI)
  show "console (notifyObserver sid i r (silenced sid ob c w))
          = console (silenced sid ob c (notifyObserver sid i r w))"
    using assms by (simp add: notifyObserver_def notifyVia_def student_silenced)
qed simp_all

lemma pushReleased_silenced:
  assumes "\<not> canNotify ob" and "sid < length (heap w)"
  shows "pushReleased sid n (silenced sid ob c w) = silenced sid ob c (pushReleased sid n w)"
proof (rule world_eqI)
  show "heap (pushReleased sid n (silenced sid ob c w)) = heap (silenced sid ob c (pushReleased sid n w))"
  proof (rule heap_eqI)
    fix k assume "k < length (heap (pushReleased sid n (silenced sid ob c w)))"
    then have k: "k < length (heap w)" by simp
    show "heap (pushReleased sid n (silenced sid ob c w)) ! k
            = heap (silenced sid ob c (pushReleased sid n w)) ! k"
      using k by (simp add: student_pushReleased student_silenced del: silenced_fields(5))
  qed simp
  show "console (pushReleased sid n (silenced sid ob c w))
          = console (silenced sid ob c (pushReleased sid n w))"
    using assms by (simp add: pushReleased_def student_silenced del: silenced_fields(5))
qed simp_all

lemma lazyCreate_silenced:
  assumes "\<not> canNotify ob" and "sid < length (heap w)" and "lazyCreate sid n w = (i, w1)"
  shows "lazyCreate sid n (silenced sid ob c w) = (i, silenced sid ob c w1)"
  using assms(2)
proof (cases rule: lazyCreate_cases [where n = n])
  case (found j)
  with assms(3) have "j = i" "w1 = w" by simp_all
  with found show ?thesis by (simp add: lazyCreate_found del: silenced_fields(5))
next
  case created
  with assms(3) have e: "i = length (assignmentStatuses (heap w ! sid))" "w1 = pushReleased sid n w"
    by simp_all
  have "lazyCreate sid n (silenced sid ob c w) =
          (length (assignmentStatuses (heap w ! sid)), pushReleased sid n (silenced sid ob c w))"
    using lazyCreate_missing [of sid "silenced sid ob c w" n] assms(2) created(1)
    by (simp del: silenced_fields(5))
  with e show ?thesis by (simp add: pushReleased_silenced [OF assms(1,2)])
qed

lemma lazyCreate_length:
  "sid < length (heap w) \<Longrightarrow> lazyCreate sid n w = (i, w1) \<Longrightarrow> sid < length (heap w1)"
  using lazyCreate_fields(2) by simp

lemma update_silenced:
  assumes "\<not> canNotify ob" and "sid < length (heap w)"
  shows "updateAssignmentStatus sid n v (silenced sid ob c w)
           = silenced sid ob c (updateAssignmentStatus sid n v w)"
proof -
  obtain i w1 where l: "lazyCreate sid n w = (i, w1)" by force
  note l' = lazyCreate_silenced [OF assms l, of c]
  have s1: "sid < length (heap w1)" using lazyCreate_length [OF assms(2) l] .
  have s': "sid < length (heap (silenced sid ob c w))" using assms(2) by simp
  show ?thesis
  proof (cases "typeof v = ''number''")
    case False
    then show ?thesis
      by (simp add: update_unfold(2) [OF assms(2) l] update_unfold(2) [OF s' l']
          del: silenced_fields(5))
  next
    case True
    then obtain g where v: "v = JNumber g" by (cases v) simp_all
    show ?thesis
      unfolding v update_unfold(1) [OF assms(2) l] update_unfold(1) [OF s' l']
      using assms(1) s1
      by (simp add: modA_silenced notifyObserver_silenced recalc_silenced
          del: silenced_fields(5))
  qed
qed

lemma submit_silenced:
  assumes "\<not> canNotify ob" and "sid < length (heap w)"
  shows "submitAssignment sid n (silenced sid ob c w)
           = silenced sid ob c (submitAssignment sid n w)"
proof -
  obtain i w1 where l: "lazyCreate sid n w = (i, w1)" by force
  note l' = lazyCreate_silenced [OF assms l, of c]
  have s1: "sid < length (heap w1)" using lazyCreate_length [OF assms(2) l] .
  have s': "sid < length (heap (silenced sid ob c w))" using assms(2) by simp
  show ?thesis
    unfolding submit_unfold [OF assms(2) l] submit_unfold [OF s' l']
    using assms(1) s1
    by (simp add: modA_silenced notifyObserver_silenced cancelWorkTimer_silenced
        setTimeout_silenced del: silenced_fields(5))
qed

lemma startWorking_silenced:
  assumes "\<not> canNotify ob" and "sid < length (heap w)"
  shows "startWorking sid n (silenced sid ob c w)
           = silenced sid ob c (startWorking sid n w)"
proof -
  obtain i w1 where l: "lazyCreate sid n w = (i, w1)" by force
  note l' = lazyCreate_silenced [OF assms l, of c]
  have s1: "sid < length (heap w1)" using lazyCreate_length [OF assms(2) l] .
  have s': "sid < length (heap (silenced sid ob c w))" using assms(2) by simp
  define w2 where "w2 = notifyObserver sid i False (modA sid i (\<lambda>a. a\<lparr>status := Working\<rparr>) w1)"
  define w3 where "w3 = (case workTimeoutId (getA w2 sid i) of
                     Some h \<Rightarrow> clearTimeout h w2 | None \<Rightarrow> w2)"
  have w2': "silenced sid ob c w2 = notifyObserver sid i False
               (modA sid i (\<lambda>a. a\<lparr>status := Working\<rparr>) (silenced sid ob c w1))"
    unfolding w2_def using assms(1) s1 by (simp add: modA_silenced notifyObserver_silenced)
  have w3': "silenced sid ob c w3 = (case workTimeoutId (getA (silenced sid ob c w2) sid i) of
                     Some h \<Rightarrow> clearTimeout h (silenced sid ob c w2) | None \<Rightarrow> silenced sid ob c w2)"
    unfolding w3_def by (simp add: clearTimeout_silenced split: option.splits)
  show ?thesis
    unfolding startWorking_unfold [OF assms(2) l w2_def w3_def]
      startWorking_unfold [OF s' l' w2' w3']
    by (simp add: modA_silenced setTimeout_silenced del: silenced_fields(5))
qed

lemma silenced_setObserver:
  "silenced sid ob (console w) (setObserver sid ob' w) = setObserver sid ob w"
  by (cases "sid < length (heap w)")
     (simp_all add: silenced_def setObserver_def not_less list_update_beyond)

lemma setObserver_length [simp]: "length (heap (setObserver sid ob w)) = length (heap w)"
  by (simp add: setObserver_def)

subsection \<open>One student at a time\<close>

lemma touches_refl: "touches sid w w"
  by (simp add: touches_def)

lemma touches_trans [trans]: "touches sid w1 w2 \<Longrightarrow> touches sid w2 w3 \<Longrightarrow> touches sid w1 w3"
  by (auto simp: touches_def)

lemma touches_heap_eq:
  "heap w' = heap w \<Longrightarrow> \<exists>ys. console w' = console w @ ys \<Longrightarrow> touches sid w w'"
  by (simp add: touches_def)

lemma touches_modA: "touches sid w (modA sid i f w)"
  by (simp add: touches_def student_modA)

lemma touches_notifyVia: "touches sid w (notifyVia ob k i r w)"
  by (rule touches_heap_eq) (simp_all add: notifyVia_def)

lemma touches_notifyObserver: "touches sid w (notifyObserver k i r w)"
  by (simp add: notifyObserver_def touches_notifyVia)

lemma touches_clearTimeout: "touches sid w (clearTimeout h w)"
  by (rule touches_heap_eq) simp_all

lemma touches_setTimeout: "touches sid w (snd (setTimeout t w))"
  by (rule touches_heap_eq) simp_all

lemma touches_recalc: "touches sid w (recalc sid w)"
  by (simp add: touches_def student_recalc)

lemma touches_pushReleased: "touches sid w (pushReleased sid n w)"
  by (simp add: touches_def student_pushReleased) (simp add: pushReleased_def)

lemma touches_lazyCreate:
  assumes "sid < length (heap w)"
  shows "touches sid w (snd (lazyCreate sid n w))"
  using assms
  by (cases rule: lazyCreate_cases [where n = n]) (simp_all add: touches_refl touches_pushReleased)

lemma touches_cancelWorkTimer: "touches sid w (cancelWorkTimer sid i w)"
proof (cases "workTimeoutId (getA w sid i)")
  case None
  then show ?thesis by (simp add: cancelWorkTimer_def touches_refl)
next
  case (Some h)
  have "touches sid w (clearTimeout h w)" by (rule touches_clearTimeout)
  also have "touches sid \<dots> (modA sid i (\<lambda>a. a\<lparr>workTimeoutId := None\<rparr>) (clearTimeout h w))"
    by (rule touches_modA)
  finally show ?thesis using Some by (simp add: cancelWorkTimer_def)
qed

lemma touches_update: "touches sid w (updateAssignmentStatus sid n v w)"
proof (cases "sid < length (heap w)")
  case False
  then show ?thesis by (simp add: updateAssignmentStatus_def touches_refl)
next
  case True
  obtain i w1 where l: "lazyCreate sid n w = (i, w1)" by force
  with touches_lazyCreate [OF True, of n] have 1: "touches sid w w1" by simp
  show ?thesis
  proof (cases "typeof v = ''number''")
    case False
    with 1 show ?thesis by (simp add: update_unfold(2) [OF True l])
  next
    case number: True
    then obtain g where v: "v = JNumber g" by (cases v) simp_all
    note 1
    also have "touches sid w1 (modA sid i (setGrade g) w1)" by (rule touches_modA)
    also have "touches sid \<dots> (notifyObserver sid i False (modA sid i (setGrade g) w1))"
      by (rule touches_notifyObserver)
    also have "touches sid \<dots> (recalc sid (notifyObserver sid i False (modA sid i (setGrade g) w1)))"
      by (rule touches_recalc)
    finally show ?thesis
      unfolding v update_unfold(1) [OF True l] .
  qed
qed

lemma touches_submit: "touches sid w (submitAssignment sid n w)"
proof (cases "sid < length (heap w)")
  case False
  then show ?thesis by (simp add: submitAssignment_def touches_refl)
next
  case True
  obtain i w1 where l: "lazyCreate sid n w = (i, w1)" by force
  with touches_lazyCreate [OF True, of n] have 1: "touches sid w w1" by simp
  let ?c = "cancelWorkTimer sid i w1"
  let ?m = "modA sid i (\<lambda>a. a\<lparr>status := Submitted\<rparr>) ?c"
  note 1
  also have "touches sid w1 ?c" by (rule touches_cancelWorkTimer)
  also have "touches sid ?c ?m" by (rule touches_modA)
  also have "touches sid ?m (notifyObserver sid i False ?m)" by (rule touches_notifyObserver)
  also have "touches sid (notifyObserver sid i False ?m)
      (snd (setTimeout (AutoGrade sid i) (notifyObserver sid i False ?m)))"
    by (rule touches_setTimeout)
  finally show ?thesis using 1 by (simp add: submit_unfold [OF True l])
qed

lemma touches_remindStudent: "touches sid w (remindStudent ob out n w sid)"
proof -
  define w1 where "w1 = (case findAssignment n (assignmentStatuses (heap w ! sid)) of
                     None \<Rightarrow> updateAssignmentStatus sid n JUndefined w
                   | Some i \<Rightarrow> w)"
  have 1: "touches sid w w1"
    unfolding w1_def by (simp add: touches_update touches_refl split: option.splits)
  have "touches sid w (submitAssignment sid n (cancelWorkTimer sid i
          (notifyVia ob sid i True (modA sid i (\<lambda>a. a\<lparr>status := FinalReminder\<rparr>) w1))))" for i
  proof -
    let ?m = "modA sid i (\<lambda>a. a\<lparr>status := FinalReminder\<rparr>) w1"
    let ?v = "notifyVia ob sid i True ?m"
    note 1
    also have "touches sid w1 ?m" by (rule touches_modA)
    also have "touches sid ?m ?v" by (rule touches_notifyVia)
    also have "touches sid ?v (cancelWorkTimer sid i ?v)" by (rule touches_cancelWorkTimer)
    also have "touches sid (cancelWorkTimer sid i ?v)
        (submitAssignment sid n (cancelWorkTimer sid i ?v))" by (rule touches_submit)
    finally show ?thesis .
  qed
  with 1 show ?thesis
    by (simp add: remindStudent_def Let_def w1_def [symmetric] touches_refl
        split: option.splits)
qed

subsection \<open>Who is outstanding\<close>

lemma find_findAssignment:
  "find (\<lambda>a. assignmentName a = n) as = map_option (nth as) (findAssignment n as)"
  by (induction as) (auto simp: option.map_comp comp_def)

lemma foldl_outstandingFor:
  "foldl (outstandingFor n) acc ss = acc @ map fullName (filter (outstandingNamed n) ss)"
  by (induction ss arbitrary: acc)
     (auto simp: outstandingFor_def outstandingNamed_def split: option.splits)

lemma outstanding_listed:
  assumes "sid \<in> set ids" and "sid < length (heap w)"
    and "findAssignment n (assignmentStatuses (heap w ! sid)) = Some i"
    and "status (getA w sid i) \<noteq> Submitted" and "status (getA w sid i) \<noteq> Pass"
    and "status (getA w sid i) \<noteq> Fail"
  shows "fullName (heap w ! sid)
           \<in> set (findOutstandingAssignments (Some n) (rosterStudents ids w))"
proof -
  have m: "heap w ! sid \<in> set (rosterStudents ids w)"
    using assms(1,2) by (auto simp: rosterStudents_def)
  note f = findAssignment_Some [OF assms(3)]
  show ?thesis
  proof (cases "n = []")
    case False
    have "outstandingNamed n (heap w ! sid)"
      using assms(3-6) by (simp add: outstandingNamed_def find_findAssignment getA_def)
    with m False show ?thesis
      by (auto simp: findOutstandingAssignments_def foldl_outstandingFor)
  next
    case True
    have "getA w sid i \<in> set (assignmentStatuses (heap w ! sid))"
      using f by (simp add: getA_def)
    moreover have "status (getA w sid i) = Released \<or> status (getA w sid i) = Working
        \<or> status (getA w sid i) = FinalReminder"
      using assms(4-6) by (cases "status (getA w sid i)") simp_all
    ultimately have "hasOutstanding (heap w ! sid)"
      unfolding hasOutstanding_def by blast
    with m True show ?thesis
      by (auto simp: findOutstandingAssignments_def foldl_outstandingAny)
  qed
qed

subsection \<open>A student that is reminded\<close>

lemma findAssignment_update:
  "assignmentName x = assignmentName (as ! i) \<Longrightarrow>
     findAssignment n (as[i := x]) = findAssignment n as"
proof (induction as arbitrary: i)
  case Nil
  show ?case by simp
next
  case (Cons a as)
  then show ?case by (cases i) simp_all
qed

lemma findAssignment_append_new:
  "findAssignment n as = None \<Longrightarrow> findAssignment n (as @ [newAssignment n]) = Some (length as)"
  by (induction as) (auto simp: newAssignment_def split: if_splits)

lemma findAssignment_modA:
  assumes "\<And>a. assignmentName (f a) = assignmentName a"
  shows "findAssignment n (assignmentStatuses (heap (modA sid i f w) ! k))
           = findAssignment n (assignmentStatuses (heap w ! k))"
  by (simp add: student_modA findAssignment_update assms getA_def)

lemma findAssignment_cancelWorkTimer:
  "findAssignment n (assignmentStatuses (heap (cancelWorkTimer sid i w) ! k))
     = findAssignment n (assignmentStatuses (heap w ! k))"
  by (simp add: cancelWorkTimer_def findAssignment_modA split: option.splits)

lemma submit_outstanding:
  assumes "sid < length (heap w)"
    and "findAssignment n (assignmentStatuses (heap w ! sid)) = Some i"
    and "status (getA w sid i) \<noteq> Submitted" and "status (getA w sid i) \<noteq> Pass"
    and "status (getA w sid i) \<noteq> Fail"
  shows "findAssignment n (assignmentStatuses (heap (submitAssignment sid n w) ! sid)) = Some i"
    and "status (getA (submitAssignment sid n w) sid i) = Submitted"
proof -
  note f = findAssignment_Some [OF assms(2)]
  note u = submit_unfold [OF assms(1) lazyCreate_found [OF assms(2)]]
  show "findAssignment n (assignmentStatuses (heap (submitAssignment sid n w) ! sid)) = Some i"
    unfolding u using assms(2-5)
    by (simp add: findAssignment_modA findAssignment_cancelWorkTimer)
  show "status (getA (submitAssignment sid n w) sid i) = Submitted"
    unfolding u using assms(1,3-5) f by (simp add: getA_modA)
qed

lemma remind_reminded:
  assumes "sid < length (heap w)" and "fullName (heap w ! sid) \<in> set out"
  shows "findAssignment n (assignmentStatuses (heap (remindStudent ob out n w sid) ! sid))
           = Some (slot n (assignmentStatuses (heap w ! sid)))"
    and "status (getA (remindStudent ob out n w sid) sid
           (slot n (assignmentStatuses (heap w ! sid)))) = Submitted"
proof -
  define w1 where "w1 = (case findAssignment n (assignmentStatuses (heap w ! sid)) of
                     None \<Rightarrow> updateAssignmentStatus sid n JUndefined w
                   | Some i \<Rightarrow> w)"
  define j where "j = slot n (assignmentStatuses (heap w ! sid))"
  have w1: "sid < length (heap w1)"
    "findAssignment n (assignmentStatuses (heap w1 ! sid)) = Some j"
  proof -
    show "sid < length (heap w1)"
      using touches_update [of sid w n JUndefined] assms(1)
      by (simp add: w1_def touches_def split: option.splits)
    show "findAssignment n (assignmentStatuses (heap w1 ! sid)) = Some j"
    proof (cases "findAssignment n (assignmentStatuses (heap w ! sid))")
      case (Some i)
      then show ?thesis by (simp add: w1_def j_def slot_def)
    next
      case None
      have "updateAssignmentStatus sid n JUndefined w = pushReleased sid n w"
        using update_unfold(2) [OF assms(1) lazyCreate_missing [OF assms(1) None], of JUndefined]
        by simp
      with None assms(1) show ?thesis
        by (simp add: w1_def j_def slot_def student_pushReleased findAssignment_append_new)
    qed
  qed
  define w3 where "w3 = cancelWorkTimer sid j
     (notifyVia ob sid j True (modA sid j (\<lambda>a. a\<lparr>status := FinalReminder\<rparr>) w1))"
  note f = findAssignment_Some [OF w1(2)]
  have w3: "sid < length (heap w3)"
    "findAssignment n (assignmentStatuses (heap w3 ! sid)) = Some j"
    "status (getA w3 sid j) = FinalReminder"
    using w1 f
    by (simp_all add: w3_def findAssignment_cancelWorkTimer findAssignment_modA getA_modA)
  have r: "remindStudent ob out n w sid = submitAssignment sid n w3"
    using assms w1(2)
    by (simp add: remindStudent_def Let_def w1_def [symmetric] w3_def)
  show "findAssignment n (assignmentStatuses (heap (remindStudent ob out n w sid) ! sid))
           = Some (slot n (assignmentStatuses (heap w ! sid)))"
    unfolding r j_def [symmetric] using w3 by (intro submit_outstanding) simp_all
  show "status (getA (remindStudent ob out n w sid) sid
           (slot n (assignmentStatuses (heap w ! sid)))) = Submitted"
    unfolding r j_def [symmetric] using w3 by (intro submit_outstanding) simp_all
qed

lemma remind_released:
  assumes "sid < length (heap w)" and "fullName (heap w ! sid) \<in> set out"
    and "findAssignment n (assignmentStatuses (heap w ! sid)) = None"
    and "canNotify (observer (heap w ! sid))"
  shows "\<exists>ys. console (remindStudent ob out n w sid) = console w @ ys
           \<and> (fullName (heap w ! sid), n, Released, False) \<in> set ys"
proof -
  let ?w1 = "pushReleased sid n w"
  let ?j = "length (assignmentStatuses (heap w ! sid))"
  have u: "updateAssignmentStatus sid n JUndefined w = ?w1"
    using update_unfold(2) [OF assms(1) lazyCreate_missing [OF assms(1,3)], of JUndefined]
    by simp
  have f: "findAssignment n (assignmentStatuses (heap ?w1 ! sid)) = Some ?j"
    using assms(1,3) by (simp add: student_pushReleased findAssignment_append_new)
  let ?w2 = "notifyVia ob sid ?j True (modA sid ?j (\<lambda>a. a\<lparr>status := FinalReminder\<rparr>) ?w1)"
  have r: "remindStudent ob out n w sid = submitAssignment sid n (cancelWorkTimer sid ?j ?w2)"
    using assms(1-3) f by (simp add: remindStudent_def Let_def u)
  have c1: "console ?w1 = console w @ [(fullName (heap w ! sid), n, Released, False)]"
    using assms(4) by (simp add: pushReleased_def)
  let ?m = "modA sid ?j (\<lambda>a. a\<lparr>status := FinalReminder\<rparr>) ?w1"
  have "touches sid ?w1 ?m" by (rule touches_modA)
  also have "touches sid ?m ?w2" by (rule touches_notifyVia)
  also have "touches sid ?w2 (cancelWorkTimer sid ?j ?w2)" by (rule touches_cancelWorkTimer)
  also have "touches sid (cancelWorkTimer sid ?j ?w2)
      (submitAssignment sid n (cancelWorkTimer sid ?j ?w2))" by (rule touches_submit)
  finally have "touches sid ?w1 (submitAssignment sid n (cancelWorkTimer sid ?j ?w2))" .
  then obtain ys where "console (submitAssignment sid n (cancelWorkTimer sid ?j ?w2))
      = console ?w1 @ ys"
    unfolding touches_def by blast
  with c1 r show ?thesis by simp
qed

subsection \<open>The loop of \<open>sendReminder\<close>\<close>

lemma foldl_remind_others:
  assumes "b \<notin> set ids"
  shows "heap (foldl (remindStudent ob out n) w ids) ! b = heap w ! b"
  using assms
proof (induction ids arbitrary: w)
  case Nil
  show ?case by simp
next
  case (Cons x xs)
  then have "x \<noteq> b" "b \<notin> set xs" by auto
  with Cons.IH [of "remindStudent ob out n w x"] touches_remindStudent [of x w ob out n]
  show ?case by (simp add: touches_def)
qed

lemma foldl_remind_console:
  "\<exists>ys. console (foldl (remindStudent ob out n) w ids) = console w @ ys"
proof (induction ids arbitrary: w)
  case Nil
  show ?case by simp
next
  case (Cons x xs)
  from touches_remindStudent [of x w ob out n]
  obtain ys where "console (remindStudent ob out n w x) = console w @ ys"
    unfolding touches_def by blast
  moreover from Cons.IH [of "remindStudent ob out n w x"]
  obtain zs where "console (foldl (remindStudent ob out n) (remindStudent ob out n w x) xs)
      = console (remindStudent ob out n w x) @ zs" by blast
  ultimately show ?case by simp
qed

lemma slot_found: "findAssignment n as = Some i \<Longrightarrow> slot n as = i"
  by (simp add: slot_def)

lemma foldl_remind_submitted:
  assumes "b \<in> set ids" and "b < length (heap w)" and "fullName (heap w ! b) \<in> set out"
  shows "findAssignment n (assignmentStatuses (heap (foldl (remindStudent ob out n) w ids) ! b))
           = Some (slot n (assignmentStatuses (heap w ! b)))
     \<and> status (getA (foldl (remindStudent ob out n) w ids) b
           (slot n (assignmentStatuses (heap w ! b)))) = Submitted"
  using assms
proof (induction ids arbitrary: w)
  case Nil
  then show ?case by simp
next
  case (Cons x xs)
  let ?w1 = "remindStudent ob out n w x"
  note t = touches_remindStudent [of x w ob out n]
  show ?case
  proof (cases "b \<in> set xs")
    case True
    have b1: "b < length (heap ?w1)" "fullName (heap ?w1 ! b) \<in> set out"
      using t Cons.prems(2,3) by (simp_all add: touches_def)
    have s: "slot n (assignmentStatuses (heap ?w1 ! b)) = slot n (assignmentStatuses (heap w ! b))"
    proof (cases "x = b")
      case True
      with remind_reminded(1) [OF Cons.prems(2,3), where n = n and ob = ob] show ?thesis
        by (simp add: slot_found)
    next
      case False
      with t show ?thesis by (simp add: touches_def)
    qed
    from Cons.IH [OF True b1] s show ?thesis by simp
  next
    case False
    with Cons.prems(1) have x: "x = b" by simp
    have "heap (foldl (remindStudent ob out n) ?w1 xs) ! b = heap ?w1 ! b"
      by (rule foldl_remind_others [OF False])
    with remind_reminded [OF Cons.prems(2,3), where n = n and ob = ob] x show ?thesis
      by (simp add: getA_def)
  qed
qed

lemma foldl_remind_released:
  assumes "b \<in> set ids" and "b < length (heap w)" and "fullName (heap w ! b) \<in> set out"
    and "findAssignment n (assignmentStatuses (heap w ! b)) = None"
    and "canNotify (observer (heap w ! b))"
  shows "\<exists>ys. console (foldl (remindStudent ob out n) w ids) = console w @ ys
           \<and> (fullName (heap w ! b), n, Released, False) \<in> set ys"
  using assms
proof (induction ids arbitrary: w)
  case Nil
  then show ?case by simp
next
  case (Cons x xs)
  let ?w1 = "remindStudent ob out n w x"
  note t = touches_remindStudent [of x w ob out n]
  show ?case
  proof (cases "x = b")
    case True
    from remind_released [OF Cons.prems(2-5), where ob = ob] True
    obtain ys where ys: "console ?w1 = console w @ ys"
      "(fullName (heap w ! b), n, Released, False) \<in> set ys" by blast
    from foldl_remind_console [where ob = ob and out = out and n = n and w = ?w1 and ids = xs]
    obtain zs where "console (foldl (remindStudent ob out n) ?w1 xs) = console ?w1 @ zs"
      by blast
    with ys show ?thesis by auto
  next
    case False
    with Cons.prems(1) have m: "b \<in> set xs" by simp
    from t False have e: "heap ?w1 ! b = heap w ! b" "length (heap ?w1) = length (heap w)"
      by (simp_all add: touches_def)
    from t obtain ys where ys: "console ?w1 = console w @ ys"
      unfolding touches_def by blast
    from Cons.IH [OF m, of ?w1] Cons.prems(2-5) e
    obtain zs where "console (foldl (remindStudent ob out n) ?w1 xs) = console ?w1 @ zs"
      "(fullName (heap w ! b), n, Released, False) \<in> set zs"
      by auto
    with ys show ?thesis by auto
  qed
qed

subsection \<open>What a call leaves alone\<close>

lemma onlyAt_refl: "onlyAt sid j w w"
  by (simp add: onlyAt_def)

lemma onlyAt_trans [trans]:
  assumes "onlyAt sid j w1 w2" and "onlyAt sid j w2 w3"
  shows "onlyAt sid j w1 w3"
  using assms unfolding onlyAt_def by (auto simp: le_trans)

lemma onlyAt_heap_eq: "heap w' = heap w \<Longrightarrow> onlyAt sid j w w'"
  by (simp add: onlyAt_def getA_def)

lemma onlyAt_modA: "onlyAt sid j w (modA sid j f w)"
  by (simp add: onlyAt_def student_modA getA_modA)

lemma onlyAt_recalc: "onlyAt sid j w (recalc sid w)"
  by (simp add: onlyAt_def student_recalc)

lemma onlyAt_pushReleased: "onlyAt sid j w (pushReleased sid n w)"
  by (simp add: onlyAt_def student_pushReleased getA_pushReleased_old)

lemma onlyAt_elsewhere:
  assumes "onlyAt sid j w w'" and "i < length (assignmentStatuses (heap w ! s))"
    and "\<not> (s = sid \<and> i = j)"
  shows "getA w' s i = getA w s i"
proof (cases "s = sid")
  case True
  with assms show ?thesis by (simp add: onlyAt_def)
next
  case False
  with assms(1) have "heap w' ! s = heap w ! s" by (simp add: onlyAt_def)
  then show ?thesis by (simp add: getA_def)
qed

lemma slot_iff:
  "i < length as \<Longrightarrow> slot n as = i \<longleftrightarrow> findAssignment n as = Some i"
  by (auto simp: slot_def split: option.splits)

lemma lazyCreate_slot:
  assumes "sid < length (heap w)" and "lazyCreate sid n w = (i, w1)"
  shows "i = slot n (assignmentStatuses (heap w ! sid)) \<and> onlyAt sid j w w1
     \<and> findAssignment n (assignmentStatuses (heap w1 ! sid)) = Some i"
  using assms(1)
proof (cases rule: lazyCreate_cases [where n = n])
  case (found k)
  with assms(2) have e: "k = i" "w1 = w" by simp_all
  with found show ?thesis by (simp add: slot_def onlyAt_refl)
next
  case created
  with assms(2) have e: "i = length (assignmentStatuses (heap w ! sid))"
    "w1 = pushReleased sid n w" by simp_all
  with created assms(1) show ?thesis
    by (simp add: slot_def onlyAt_pushReleased student_pushReleased findAssignment_append_new)
qed

lemma onlyAt_cancelWorkTimer: "onlyAt sid j w (cancelWorkTimer sid j w)"
proof (cases "workTimeoutId (getA w sid j)")
  case None
  then show ?thesis by (simp add: cancelWorkTimer_def onlyAt_refl)
next
  case (Some h)
  have "onlyAt sid j w (clearTimeout h w)" by (rule onlyAt_heap_eq) simp
  also have "onlyAt sid j \<dots> (modA sid j (\<lambda>a. a\<lparr>workTimeoutId := None\<rparr>) (clearTimeout h w))"
    by (rule onlyAt_modA)
  finally show ?thesis using Some by (simp add: cancelWorkTimer_def)
qed

lemma onlyAt_update:
  "onlyAt sid (slot n (assignmentStatuses (heap w ! sid))) w (updateAssignmentStatus sid n v w)"
proof (cases "sid < length (heap w)")
  case False
  then show ?thesis by (simp add: updateAssignmentStatus_def onlyAt_refl)
next
  case True
  obtain i w1 where l: "lazyCreate sid n w = (i, w1)" by force
  from lazyCreate_slot [OF True l, of i]
  have s: "i = slot n (assignmentStatuses (heap w ! sid))" "onlyAt sid i w w1" by blast+
  have 1: "onlyAt sid i w w1" by (rule s(2))
  show ?thesis
  proof (cases "typeof v = ''number''")
    case False
    with 1 show ?thesis by (simp add: update_unfold(2) [OF True l] s(1) [symmetric])
  next
    case number: True
    then obtain g where v: "v = JNumber g" by (cases v) simp_all
    note 1
    also have "onlyAt sid i w1 (modA sid i (setGrade g) w1)" by (rule onlyAt_modA)
    also have "onlyAt sid i \<dots> (notifyObserver sid i False (modA sid i (setGrade g) w1))"
      by (rule onlyAt_heap_eq) simp
    also have "onlyAt sid i \<dots>
        (recalc sid (notifyObserver sid i False (modA sid i (setGrade g) w1)))"
      by (rule onlyAt_recalc)
    finally show ?thesis
      unfolding v update_unfold(1) [OF True l] s(1) [symmetric] .
  qed
qed

lemma onlyAt_submit:
  "onlyAt sid (slot n (assignmentStatuses (heap w ! sid))) w (submitAssignment sid n w)"
proof (cases "sid < length (heap w)")
  case False
  then show ?thesis by (simp add: submitAssignment_def onlyAt_refl)
next
  case True
  obtain i w1 where l: "lazyCreate sid n w = (i, w1)" by force
  from lazyCreate_slot [OF True l, of i]
  have s: "i = slot n (assignmentStatuses (heap w ! sid))" "onlyAt sid i w w1" by blast+
  have 1: "onlyAt sid i w w1" by (rule s(2))
  let ?c = "cancelWorkTimer sid i w1"
  let ?m = "modA sid i (\<lambda>a. a\<lparr>status := Submitted\<rparr>) ?c"
  note 1
  also have "onlyAt sid i w1 ?c" by (rule onlyAt_cancelWorkTimer)
  also have "onlyAt sid i ?c ?m" by (rule onlyAt_modA)
  also have "onlyAt sid i ?m (snd (setTimeout (AutoGrade sid i) (notifyObserver sid i False ?m)))"
    by (rule onlyAt_heap_eq) simp
  finally show ?thesis using 1
    by (simp add: submit_unfold [OF True l] s(1) [symmetric])
qed

lemma onlyAt_startWorking:
  "onlyAt sid (slot n (assignmentStatuses (heap w ! sid))) w (startWorking sid n w)"
proof (cases "sid < length (heap w)")
  case False
  then show ?thesis by (simp add: startWorking_def onlyAt_refl)
next
  case True
  obtain i w1 where l: "lazyCreate sid n w = (i, w1)" by force
  from lazyCreate_slot [OF True l, of i]
  have s: "i = slot n (assignmentStatuses (heap w ! sid))" "onlyAt sid i w w1" by blast+
  define w2 where "w2 = notifyObserver sid i False (modA sid i (\<lambda>a. a\<lparr>status := Working\<rparr>) w1)"
  define w3 where "w3 = (case workTimeoutId (getA w2 sid i) of
                     Some h \<Rightarrow> clearTimeout h w2 | None \<Rightarrow> w2)"
  have "onlyAt sid i w w1" by (rule s(2))
  also have "onlyAt sid i w1 (modA sid i (\<lambda>a. a\<lparr>status := Working\<rparr>) w1)" by (rule onlyAt_modA)
  also have "onlyAt sid i \<dots> w2" unfolding w2_def by (rule onlyAt_heap_eq) simp
  also have "onlyAt sid i w2 w3"
    unfolding w3_def by (rule onlyAt_heap_eq) (simp split: option.splits)
  also have "onlyAt sid i w3 (snd (setTimeout (AutoSubmit sid i n) w3))"
    by (rule onlyAt_heap_eq) simp
  also have "onlyAt sid i \<dots> (modA sid i (\<lambda>a. a\<lparr>workTimeoutId := Some (nextId w3)\<rparr>)
             (snd (setTimeout (AutoSubmit sid i n) w3)))"
    by (rule onlyAt_modA)
  finally show ?thesis
    unfolding startWorking_unfold [OF True l w2_def w3_def] s(1) [symmetric] .
qed

lemma startWorking_status:
  assumes "sid < length (heap w)"
    and "findAssignment n (assignmentStatuses (heap w ! sid)) = Some i"
  shows "status (getA (startWorking sid n w) sid i) = Working"
proof -
  note f = findAssignment_Some [OF assms(2)]
  note l = lazyCreate_found [OF assms(2)]
  show ?thesis
    unfolding startWorking_unfold [OF assms(1) l refl refl]
    using assms(1) f by (simp add: getA_modA split: option.splits)
qed

lemma remind_onlyAt:
  "onlyAt sid (slot n (assignmentStatuses (heap w ! sid))) w (remindStudent ob out n w sid)"
proof (cases "sid < length (heap w) \<and> fullName (heap w ! sid) \<in> set out")
  case False
  then show ?thesis by (auto simp: remindStudent_def onlyAt_refl)
next
  case True
  then have v: "sid < length (heap w)" and o: "fullName (heap w ! sid) \<in> set out" by simp_all
  define j where "j = slot n (assignmentStatuses (heap w ! sid))"
  define w1 where "w1 = (case findAssignment n (assignmentStatuses (heap w ! sid)) of
                     None \<Rightarrow> updateAssignmentStatus sid n JUndefined w
                   | Some i \<Rightarrow> w)"
  have 1: "onlyAt sid j w w1"
    unfolding w1_def j_def using onlyAt_update [of sid n w JUndefined]
    by (simp add: onlyAt_refl split: option.splits)
  have f1: "findAssignment n (assignmentStatuses (heap w1 ! sid)) = Some j"
  proof (cases "findAssignment n (assignmentStatuses (heap w ! sid))")
    case (Some i)
    then show ?thesis by (simp add: w1_def j_def slot_def)
  next
    case None
    have "updateAssignmentStatus sid n JUndefined w = pushReleased sid n w"
      using update_unfold(2) [OF v lazyCreate_missing [OF v None], of JUndefined] by simp
    with None v show ?thesis
      by (simp add: w1_def j_def slot_def student_pushReleased findAssignment_append_new)
  qed
  define w3 where "w3 = cancelWorkTimer sid j
     (notifyVia ob sid j True (modA sid j (\<lambda>a. a\<lparr>status := FinalReminder\<rparr>) w1))"
  have f3: "findAssignment n (assignmentStatuses (heap w3 ! sid)) = Some j"
    using f1 by (simp add: w3_def findAssignment_cancelWorkTimer findAssignment_modA)
  have r: "remindStudent ob out n w sid = submitAssignment sid n w3"
    using v o f1 by (simp add: remindStudent_def Let_def w1_def [symmetric] w3_def)
  let ?m = "modA sid j (\<lambda>a. a\<lparr>status := FinalReminder\<rparr>) w1"
  note 1
  also have "onlyAt sid j w1 ?m" by (rule onlyAt_modA)
  also have "onlyAt sid j ?m (notifyVia ob sid j True ?m)" by (rule onlyAt_heap_eq) simp
  also have "onlyAt sid j \<dots> w3" unfolding w3_def by (rule onlyAt_cancelWorkTimer)
  also have "onlyAt sid j w3 (submitAssignment sid n w3)"
    using onlyAt_submit [of sid n w3] f3 by (simp add: slot_def)
  finally show ?thesis unfolding r j_def .
qed

lemma remind_keeps_slot:
  "slot n (assignmentStatuses (heap (remindStudent ob out n w x) ! s))
     = slot n (assignmentStatuses (heap w ! s))"
proof (cases "x = s \<and> s < length (heap w) \<and> fullName (heap w ! s) \<in> set out")
  case True
  with remind_reminded(1) [of s w out n ob] show ?thesis by (simp add: slot_found)
next
  case False
  show ?thesis
  proof (cases "x = s")
    case True
    with False show ?thesis by (auto simp: remindStudent_def)
  next
    case False
    with touches_remindStudent [of x w ob out n] show ?thesis by (simp add: touches_def)
  qed
qed

lemma foldl_remind_frame:
  assumes "s < length (heap w)" and "i < length (assignmentStatuses (heap w ! s))"
    and "\<not> (s \<in> set ids \<and> fullName (heap w ! s) \<in> set out
            \<and> slot n (assignmentStatuses (heap w ! s)) = i)"
  shows "getA (foldl (remindStudent ob out n) w ids) s i = getA w s i"
  using assms
proof (induction ids arbitrary: w)
  case Nil
  show ?case by simp
next
  case (Cons x xs)
  let ?w1 = "remindStudent ob out n w x"
  note t = touches_remindStudent [of x w ob out n]
  note o = remind_onlyAt [of x n w ob out]
  have g: "getA ?w1 s i = getA w s i"
  proof (cases "x = s")
    case False
    with t have "heap ?w1 ! s = heap w ! s" by (simp add: touches_def)
    then show ?thesis by (simp add: getA_def)
  next
    case True
    show ?thesis
    proof (cases "fullName (heap w ! s) \<in> set out")
      case False
      with True show ?thesis by (simp add: remindStudent_def)
    next
      case out: True
      with Cons.prems(3) True have "slot n (assignmentStatuses (heap w ! s)) \<noteq> i" by simp
      with o True Cons.prems(2) show ?thesis by (intro onlyAt_elsewhere) auto
    qed
  qed
  have l: "s < length (heap ?w1)" using t Cons.prems(1) by (simp add: touches_def)
  have "relA (keeps True False) w ?w1" by (rule relK_remindStudent)
  with Cons.prems(1,2) have i: "i < length (assignmentStatuses (heap ?w1 ! s))"
    unfolding relA_def by (meson less_le_trans)
  have n: "fullName (heap ?w1 ! s) = fullName (heap w ! s)" using t by (simp add: touches_def)
  have c: "\<not> (s \<in> set xs \<and> fullName (heap ?w1 ! s) \<in> set out
            \<and> slot n (assignmentStatuses (heap ?w1 ! s)) = i)"
    using Cons.prems(3) by (auto simp: n remind_keeps_slot)
  from Cons.IH [OF l i c] g show ?case by simp
qed

lemma samsGraded_eq:
  "samsGraded =
     \<lparr>heap = [\<lparr>fullName = ''Sam'', email = ''sam1@example.org'',
               assignmentStatuses =
                 [\<lparr>assignmentName = ''HW3'', status = Released, grade = None,
                   graded = False, workTimeoutId = None\<rparr>],
               overallGrade = None, observer = ObsNotify\<rparr>,
              \<lparr>fullName = ''Sam'', email = ''sam2@example.org'',
               assignmentStatuses =
                 [\<lparr>assignmentName = ''HW3'', status = Pass, grade = Some (Fin 80),
                   graded = True, workTimeoutId = None\<rparr>],
               overallGrade = Some (Fin 80), observer = ObsNotify\<rparr>],
      timers = [], nextId = 1,
      console = [(''Sam'', ''HW3'', Released, False), (''Sam'', ''HW3'', Released, False),
                 (''Sam'', ''HW3'', Pass, False)]\<rparr>"
  by (simp add: samsGraded_def exec_defs)

lemma reachable_samsGraded: "reachable samsGraded"
  unfolding samsGraded_def by (rule reachable_run [OF reach_init]) simp

section \<open>The properties\<close>




text \<open>
  C2. \<open>setGrade(g)\<close> records the grade \<open>g\<close>, marks the assignment graded, and sets
  the status to \<open>Pass\<close> exactly when \<open>g > 50\<close> and to \<open>Fail\<close> otherwise; for every
  number other than \<open>NaN\<close> "otherwise" is \<open>g <= 50\<close>, and \<open>setGrade(50)\<close> yields
  \<open>Fail\<close>.
\<close>

theorem setGrade_pass_fail:
  "grade (setGrade g a) = Some g \<and> graded (setGrade g a)
   \<and> (status (setGrade g a) = Pass \<longleftrightarrow> js_gt g (Fin 50))
   \<and> (status (setGrade g a) = Fail \<longleftrightarrow> \<not> js_gt g (Fin 50))
   \<and> (g \<noteq> NaN \<longrightarrow> (status (setGrade g a) = Fail \<longleftrightarrow> js_le g (Fin 50)))
   \<and> status (setGrade (Fin 50) a) = Fail"
  by (cases g) (simp_all add: setGrade_def)

theorem setGrade_pass_fail_witness:
  "Fin 75 \<noteq> NaN \<and> status (setGrade (Fin 75) (newAssignment ''HW2'')) = Pass
   \<and> \<not> js_le (Fin 75) (Fin 50)"
  using setGrade_pass_fail [of "Fin 75" "newAssignment ''HW2''"] by simp

text \<open>
  \<open>NaN\<close> is a number for \<open>typeof\<close>; it is graded \<open>Fail\<close> although \<open>NaN <= 50\<close> is false.
\<close>

theorem setGrade_NaN_counterexample:
  "status (setGrade NaN (newAssignment ''HW1'')) = Fail \<and> \<not> js_le NaN (Fin 50)"
  by (simp add: setGrade_def newAssignment_def)

text \<open>
  C3. Once an assignment is graded, no step clears the graded flag, and the
  scheduled auto-grade callback leaves the whole state as it is.  The recorded grade is
  changed by no step other than \<open>updateAssignmentStatus\<close> called with a number on that
  student for that assignment.  A status \<open>Pass\<close> or \<open>Fail\<close> is changed by no step other
  than that call, \<open>startWorking\<close> on that student for that assignment, and \<open>sendReminder\<close>
  for that assignment over a roster that holds the student, when the student's full name is
  among the names found outstanding.  Every other step, a numeric update, a
  \<open>startWorking\<close> or a reminder aimed elsewhere included, keeps both.  And
  \<open>updateAssignmentStatus\<close> with a number on the assignment itself grades it again, as
  \<open>startWorking\<close> on it sets its status to \<open>working\<close>.
\<close>

theorem graded_is_kept:
  assumes "sid < length (heap w)" and "i < length (assignmentStatuses (heap w ! sid))"
    and "graded (getA w sid i)"
  shows "graded (getA (step a w) sid i)
     \<and> (\<not> regradesAt w sid i a \<longrightarrow> grade (getA (step a w) sid i) = grade (getA w sid i))
     \<and> (\<not> regradesAt w sid i a \<longrightarrow> \<not> forcesStatusAt w sid i a \<longrightarrow>
          status (getA w sid i) = Pass \<or> status (getA w sid i) = Fail \<longrightarrow>
          status (getA (step a w) sid i) = status (getA w sid i))
     \<and> runTask (AutoGrade sid i) r w = w
     \<and> (findAssignment n (assignmentStatuses (heap w ! sid)) = Some i \<longrightarrow>
          getA (updateAssignmentStatus sid n (JNumber g) w) sid i = setGrade g (getA w sid i)
          \<and> status (getA (startWorking sid n w) sid i) = Working)"
proof -
  from relK_step [of a w] assms(1,2)
  have "keeps (\<not> regrades a) (\<not> regrades a \<and> \<not> forcesStatus a)
          (getA w sid i) (getA (step a w) sid i)"
    unfolding relA_def by blast
  with assms(3) have k: "graded (getA (step a w) sid i)"
    "\<not> regrades a \<Longrightarrow> grade (getA (step a w) sid i) = grade (getA w sid i)"
    "\<not> regrades a \<Longrightarrow> \<not> forcesStatus a \<Longrightarrow>
          status (getA w sid i) = Pass \<or> status (getA w sid i) = Fail \<Longrightarrow>
          status (getA (step a w) sid i) = status (getA w sid i)"
    by (simp_all add: keeps_def)
  have f1: "getA (step a w) sid i = getA w sid i" if "regrades a" "\<not> regradesAt w sid i a"
  proof -
    from that(1) obtain sid' m v where a: "a = UpdateAssignmentStatus sid' m v"
      and v: "typeof v = ''number''" by (cases a) simp_all
    from that(2) a v slot_iff [OF assms(2), of m]
    have "\<not> (sid = sid' \<and> i = slot m (assignmentStatuses (heap w ! sid')))"
      by auto
    with onlyAt_update [of sid' m w v] assms(2) a show ?thesis
      by (simp add: onlyAt_elsewhere)
  qed
  have f2: "getA (step a w) sid i = getA w sid i" if "forcesStatus a" "\<not> forcesStatusAt w sid i a"
  proof (cases a)
    case (StartWorking sid' m)
    with that(2) slot_iff [OF assms(2), of m]
    have "\<not> (sid = sid' \<and> i = slot m (assignmentStatuses (heap w ! sid')))"
      by auto
    with onlyAt_startWorking [of sid' m w] assms(2) StartWorking show ?thesis
      by (simp add: onlyAt_elsewhere)
  next
    case (SendReminder ids ob m)
    let ?out = "findOutstandingAssignments (Some m) (rosterStudents ids w)"
    from that(2) SendReminder slot_iff [OF assms(2), of m]
    have "\<not> (sid \<in> set ids \<and> fullName (heap w ! sid) \<in> set ?out
            \<and> slot m (assignmentStatuses (heap w ! sid)) = i)"
      by auto
    from foldl_remind_frame [OF assms(1,2) this] SendReminder show ?thesis
      by (simp add: sendReminder_def)
  qed (use that(1) in simp_all)
  have c2: "grade (getA (step a w) sid i) = grade (getA w sid i)" if "\<not> regradesAt w sid i a"
    using that k(2) f1 by (cases "regrades a") simp_all
  have c3: "status (getA (step a w) sid i) = status (getA w sid i)"
    if "\<not> regradesAt w sid i a" "\<not> forcesStatusAt w sid i a"
      "status (getA w sid i) = Pass \<or> status (getA w sid i) = Fail"
  proof (cases "regrades a")
    case True
    with f1 that(1) show ?thesis by simp
  next
    case False
    show ?thesis
    proof (cases "forcesStatus a")
      case True
      with f2 that(2) show ?thesis by simp
    next
      case nf: False
      from k(3) [OF False nf that(3)] show ?thesis .
    qed
  qed
  have t: "runTask (AutoGrade sid i) r w = w"
    using assms(3) by (simp add: runTask_def)
  have u: "getA (updateAssignmentStatus sid n (JNumber g) w) sid i = setGrade g (getA w sid i)"
    if "findAssignment n (assignmentStatuses (heap w ! sid)) = Some i"
    using assms(1,2)
    by (simp add: update_unfold(1) [OF assms(1) lazyCreate_found [OF that]] getA_modA)
  from k(1) c2 c3 t u startWorking_status [OF assms(1)] show ?thesis by blast
qed

theorem graded_is_kept_witness:
  "(0::nat) < length (heap gradedOnce)
   \<and> (0::nat) < length (assignmentStatuses (heap gradedOnce ! 0))
   \<and> graded (getA gradedOnce 0 0)
   \<and> \<not> regradesAt gradedOnce 0 0 (UpdateAssignmentStatus 0 ''HW9'' (JNumber (Fin 30)))
   \<and> \<not> forcesStatusAt gradedOnce 0 0 (UpdateAssignmentStatus 0 ''HW9'' (JNumber (Fin 30)))
   \<and> status (getA gradedOnce 0 0) = Pass
   \<and> findAssignment ''HW2'' (assignmentStatuses (heap gradedOnce ! 0)) = Some 0
   \<and> graded (getA (step (UpdateAssignmentStatus 0 ''HW9'' (JNumber (Fin 30))) gradedOnce) 0 0)
   \<and> grade (getA (step (UpdateAssignmentStatus 0 ''HW9'' (JNumber (Fin 30))) gradedOnce) 0 0)
       = Some (Fin 80)
   \<and> status (getA (step (UpdateAssignmentStatus 0 ''HW9'' (JNumber (Fin 30))) gradedOnce) 0 0)
       = Pass
   \<and> runTask (AutoGrade 0 0) 7 gradedOnce = gradedOnce
   \<and> grade (getA (updateAssignmentStatus 0 ''HW2'' (JNumber (Fin 30)) gradedOnce) 0 0)
       = Some (Fin 30)
   \<and> status (getA (startWorking 0 ''HW2'' gradedOnce) 0 0) = Working"
proof -
  have h: "(0::nat) < length (heap gradedOnce)"
    "(0::nat) < length (assignmentStatuses (heap gradedOnce ! 0))"
    "graded (getA gradedOnce 0 0)"
    by (simp_all add: gradedOnce_eq getA_def)
  have v: "status (getA gradedOnce 0 0) = Pass" "grade (getA gradedOnce 0 0) = Some (Fin 80)"
    "findAssignment ''HW2'' (assignmentStatuses (heap gradedOnce ! 0)) = Some 0"
    "\<not> regradesAt gradedOnce 0 0 (UpdateAssignmentStatus 0 ''HW9'' (JNumber (Fin 30)))"
    "\<not> forcesStatusAt gradedOnce 0 0 (UpdateAssignmentStatus 0 ''HW9'' (JNumber (Fin 30)))"
    by (simp_all add: gradedOnce_eq getA_def)
  from graded_is_kept [OF h, of "UpdateAssignmentStatus 0 ''HW9'' (JNumber (Fin 30))" 7
      "''HW2''" "Fin 30"] h v
  show ?thesis by (simp add: setGrade_def)
qed

text \<open>
  A second \<open>updateAssignmentStatus\<close> with a number replaces the grade and the status of an
  assignment that is already graded, and \<open>startWorking\<close> replaces its status.  A reminder
  replaces the status \<open>Pass\<close> of a graded assignment by \<open>submitted\<close> when another student
  of the same full name has the assignment outstanding.
\<close>

theorem regrade_counterexample:
  "reachable gradedOnce
   \<and> graded (getA gradedOnce 0 0)
   \<and> grade (getA gradedOnce 0 0) = Some (Fin 80)
   \<and> status (getA gradedOnce 0 0) = Pass
   \<and> grade (getA (step (UpdateAssignmentStatus 0 ''HW2'' (JNumber (Fin 30))) gradedOnce) 0 0)
       = Some (Fin 30)
   \<and> status (getA (step (UpdateAssignmentStatus 0 ''HW2'' (JNumber (Fin 30))) gradedOnce) 0 0)
       = Fail
   \<and> status (getA (step (StartWorking 0 ''HW2'') gradedOnce) 0 0) = Working
   \<and> reachable samsGraded
   \<and> graded (getA samsGraded 1 0)
   \<and> status (getA samsGraded 1 0) = Pass
   \<and> status (getA (step (SendReminder [0, 1] ObsNull ''HW3'') samsGraded) 1 0) = Submitted"
proof -
  have "status (getA (step (SendReminder [0, 1] ObsNull ''HW3'') samsGraded) 1 0) = Submitted"
    by (simp add: samsGraded_eq exec_defs sendReminder_def remindStudent_def
        findOutstandingAssignments_def outstandingFor_def rosterStudents_def)
  then show ?thesis
    by (simp add: reachable_examples reachable_samsGraded)
       (simp add: gradedOnce_eq samsGraded_eq exec_defs)
qed




text \<open>
  C5. If the named assignment exists with status \<open>submitted\<close>, \<open>Pass\<close> or
  \<open>Fail\<close>, then \<open>submitAssignment\<close> changes nothing: students, timers and console are as
  before.
\<close>

theorem submitAssignment_noop:
  assumes "sid < length (heap w)"
    and "findAssignment n (assignmentStatuses (heap w ! sid)) = Some i"
    and "status (getA w sid i) = Submitted \<or> status (getA w sid i) = Pass
         \<or> status (getA w sid i) = Fail"
  shows "submitAssignment sid n w = w"
  using assms by (auto simp add: submitAssignment_def lazyCreate_found)

theorem submitAssignment_noop_witness:
  "(0::nat) < length (heap submittedWorld)
   \<and> findAssignment ''HW1'' (assignmentStatuses (heap submittedWorld ! 0)) = Some 0
   \<and> status (getA submittedWorld 0 0) = Submitted
   \<and> submitAssignment 0 ''HW1'' submittedWorld = submittedWorld"
proof -
  have h: "(0::nat) < length (heap submittedWorld)"
    "findAssignment ''HW1'' (assignmentStatuses (heap submittedWorld ! 0)) = Some 0"
    "status (getA submittedWorld 0 0) = Submitted"
    by (simp_all add: submittedWorld_def getA_def)
  from submitAssignment_noop [OF h(1,2)] h show ?thesis by simp
qed

text \<open>
  C6. \<open>getGrade()\<close> returns \<open>null\<close> when no assignment has a grade.  Otherwise it
  returns the sum of the grades of exactly the assignments that have one, added from the
  left in double arithmetic starting at \<open>0\<close>, divided in double arithmetic by their
  number.  When these grades are natural numbers whose sum is below \<open>2^53\<close>, that is their
  arithmetic mean rounded to the nearest double.
\<close>

theorem getGrade_value:
  "snd (getGrade s) =
     (if presentGrades s = [] then None
      else Some (js_div_len (doubleSum (presentGrades s)) (length (presentGrades s))))
   \<and> (\<forall>ks. ks \<noteq> [] \<longrightarrow> presentGrades s = map (\<lambda>k. Fin (of_nat k)) ks \<longrightarrow>
          sum_list ks < 2 ^ 53 \<longrightarrow>
          snd (getGrade s) = Some (roundDouble (arithmeticMean (map of_nat ks))))"
proof -
  have "snd (getGrade s) = Some (roundDouble (arithmeticMean (map of_nat ks)))"
    if "ks \<noteq> []" and p: "presentGrades s = map (\<lambda>k. Fin (of_nat k)) ks"
      and "sum_list ks < 2 ^ 53" for ks
  proof -
    from that(1) p have ne: "presentGrades s \<noteq> []" by simp
    have "snd (getGrade s) =
        Some (js_div_len (Fin (of_nat (sum_list ks))) (length ks))"
      using ne that(3) by (simp add: getGrade_doubleSum p doubleSum_nat)
    with that(1) show ?thesis
      by (simp add: arithmeticMean_def sum_list_of_nat)
  qed
  with getGrade_doubleSum [of s] show ?thesis by blast
qed

theorem getGrade_value_witness:
  "[75, 50] \<noteq> ([] :: nat list)
   \<and> presentGrades threeAssignments = map (\<lambda>k. Fin (of_nat k)) [75, 50]
   \<and> sum_list [75, 50 :: nat] < 2 ^ 53
   \<and> arithmeticMean (map of_nat [75, 50 :: nat]) = 125 / 2
   \<and> roundDouble (125 / 2) = Fin (125 / 2)
   \<and> snd (getGrade threeAssignments) = Some (Fin (125 / 2))
   \<and> snd (getGrade (newStudent ''Bob'' ''bob@example.org'' ObsNull)) = None"
proof -
  have p: "presentGrades threeAssignments = map (\<lambda>k. Fin (of_nat k)) [75, 50]"
    by (simp add: presentGrades_def threeAssignments_def setGrade_def newAssignment_def)
  have q: "presentGrades (newStudent ''Bob'' ''bob@example.org'' ObsNull) = []"
    by (simp add: presentGrades_def newStudent_def)
  have m: "arithmeticMean (map of_nat [75, 50 :: nat]) = 125 / 2"
    by (simp add: arithmeticMean_def)
  have r: "roundDouble (125 / 2) = Fin (125 / 2)" by code_simp
  have s: "sum_list [75, 50 :: nat] < 2 ^ 53" by simp
  have n: "[75, 50] \<noteq> ([] :: nat list)" by simp
  from getGrade_value [of threeAssignments] n p s
  have g0: "snd (getGrade threeAssignments)
          = Some (roundDouble (arithmeticMean (map of_nat [75, 50 :: nat])))"
    by blast
  have g: "snd (getGrade threeAssignments) = Some (Fin (125 / 2))"
    by (simp only: g0 m r)
  from getGrade_value [of "newStudent ''Bob'' ''bob@example.org'' ObsNull"] q
  have b: "snd (getGrade (newStudent ''Bob'' ''bob@example.org'' ObsNull)) = None" by simp
  from n p s m r g b show ?thesis by blast
qed

text \<open>
  The value returned is not the arithmetic mean in general.  Two grades equal to the
  largest double have that double as their mean, and \<open>getGrade()\<close> returns \<open>Infinity\<close>,
  the sum having overflown.  The grades 1, 2 and 2 have the mean \<open>5/3\<close>, and
  \<open>getGrade()\<close> returns the double \<open>1.6666666666666667\<close>.
\<close>

theorem mean_overflow_counterexample:
  "presentGrades twoMax = [Fin maxDouble, Fin maxDouble]
   \<and> roundDouble maxDouble = Fin maxDouble
   \<and> arithmeticMean [maxDouble, maxDouble] = maxDouble
   \<and> snd (getGrade twoMax) = Some PosInf
   \<and> presentGrades oneTwoTwo = [Fin 1, Fin 2, Fin 2]
   \<and> arithmeticMean [1, 2, 2] = 5 / 3
   \<and> snd (getGrade oneTwoTwo) = Some (Fin (7505999378950827 / 4503599627370496))"
proof -
  have p: "presentGrades twoMax = [Fin maxDouble, Fin maxDouble]"
    "presentGrades oneTwoTwo = [Fin 1, Fin 2, Fin 2]"
    by (simp_all add: presentGrades_def twoMax_def oneTwoTwo_def setGrade_def newAssignment_def)
  have m: "arithmeticMean [maxDouble, maxDouble] = maxDouble" "arithmeticMean [1, 2, 2] = 5 / 3"
    by (simp_all add: arithmeticMean_def)
  have "doubleSum [Fin maxDouble, Fin maxDouble] = PosInf"
    by (simp add: doubleSum_def roundDouble_maxDouble roundDouble_twice_maxDouble)
  then have g1: "snd (getGrade twoMax) = Some PosInf"
    by (simp add: getGrade_doubleSum p)
  have "doubleSum [Fin 1, Fin 2, Fin 2] = Fin 5"
    by (simp add: doubleSum_def roundDouble_numeral)
  then have g2: "snd (getGrade oneTwoTwo) = Some (Fin (7505999378950827 / 4503599627370496))"
    by (simp add: getGrade_doubleSum p roundDouble_five_thirds)
  from p m g1 g2 roundDouble_maxDouble show ?thesis by simp
qed

text \<open>
  C7. For a \<open>grade\<close> argument that is not a number,
  \<open>updateAssignmentStatus\<close> does what it does for \<open>undefined\<close>: nothing at all when the
  assignment exists, and otherwise it pushes a new released assignment and notifies the
  student's observer, which prints the released line.
\<close>

theorem update_non_number:
  assumes "typeof v \<noteq> ''number''"
  shows "updateAssignmentStatus sid n v w = updateAssignmentStatus sid n JUndefined w
     \<and> (sid < length (heap w) \<longrightarrow>
          updateAssignmentStatus sid n v w =
            (case findAssignment n (assignmentStatuses (heap w ! sid)) of
               Some i \<Rightarrow> w
             | None \<Rightarrow> pushReleased sid n w))
     \<and> notify (fullName (heap w ! sid), n, Released, False)
           = MsgReleased (fullName (heap w ! sid)) n"
proof -
  have u: "updateAssignmentStatus sid n v w =
             (if \<not> sid < length (heap w) then w else snd (lazyCreate sid n w))"
    using assms by (cases v) (simp_all add: updateAssignmentStatus_def split_beta)
  have u0: "updateAssignmentStatus sid n JUndefined w =
             (if \<not> sid < length (heap w) then w else snd (lazyCreate sid n w))"
    by (simp add: updateAssignmentStatus_def split_beta)
  have c: "snd (lazyCreate sid n w) =
            (case findAssignment n (assignmentStatuses (heap w ! sid)) of
               Some i \<Rightarrow> w
             | None \<Rightarrow> pushReleased sid n w)" if "sid < length (heap w)"
    using that by (cases "findAssignment n (assignmentStatuses (heap w ! sid))")
      (simp_all add: lazyCreate_found lazyCreate_missing)
  show ?thesis using u u0 c by simp
qed

theorem update_non_number_witness:
  "typeof (JString ''80'') \<noteq> ''number'' \<and> (0::nat) < length (heap adaAlone)
   \<and> updateAssignmentStatus 0 ''HW1'' (JString ''80'') adaAlone =
       \<lparr>heap = [\<lparr>fullName = ''Ada'', email = ''ada@example.org'',
                 assignmentStatuses = [newAssignment ''HW1''], overallGrade = None,
                 observer = ObsNotify\<rparr>],
        timers = [], nextId = 1, console = [(''Ada'', ''HW1'', Released, False)]\<rparr>"
proof -
  have t: "typeof (JString ''80'') \<noteq> ''number''" by simp
  have l: "(0::nat) < length (heap adaAlone)" by (simp add: adaAlone_def)
  have f: "findAssignment ''HW1'' (assignmentStatuses (heap adaAlone ! 0)) = None"
    by (simp add: adaAlone_def newStudent_def)
  from update_non_number [OF t, of 0 "''HW1''" adaAlone] l f
  have "updateAssignmentStatus 0 ''HW1'' (JString ''80'') adaAlone = pushReleased 0 ''HW1'' adaAlone"
    by auto
  then show ?thesis using t l by (simp add: adaAlone_def newStudent_def pushReleased_def)
qed

text \<open>
  C8. Without an argument, \<open>findOutstandingAssignments\<close> lists, in roster order,
  one full name for each student that has an assignment with status \<open>released\<close>,
  \<open>working\<close> or \<open>final reminder\<close>, and nothing else: a name is in the result exactly when
  a student of that name has an assignment and has one outstanding.  When the full names
  of the roster are distinct, the full name of a student without assignments is not in the
  result.
\<close>

theorem findOutstanding_no_filter:
  "findOutstandingAssignments None ss =
     map fullName (filter (\<lambda>s. assignmentStatuses s \<noteq> [] \<and> hasOutstanding s) ss)
   \<and> (\<forall>n. n \<in> set (findOutstandingAssignments None ss) \<longleftrightarrow>
        (\<exists>s \<in> set ss. fullName s = n \<and> assignmentStatuses s \<noteq> [] \<and> hasOutstanding s))
   \<and> (distinct (map fullName ss) \<longrightarrow>
        (\<forall>s \<in> set ss. assignmentStatuses s = [] \<longrightarrow>
           fullName s \<notin> set (findOutstandingAssignments None ss)))"
proof -
  have e: "(\<lambda>s. assignmentStatuses s \<noteq> [] \<and> hasOutstanding s) = hasOutstanding"
    by (rule ext) (use hasOutstanding_nonempty in blast)
  have r: "findOutstandingAssignments None ss = map fullName (filter hasOutstanding ss)"
    by (simp add: findOutstandingAssignments_def foldl_outstandingAny)
  have m: "n \<in> set (findOutstandingAssignments None ss) \<longleftrightarrow>
        (\<exists>s \<in> set ss. fullName s = n \<and> assignmentStatuses s \<noteq> [] \<and> hasOutstanding s)" for n
    unfolding r using hasOutstanding_nonempty by auto
  have d: "fullName s \<notin> set (findOutstandingAssignments None ss)"
    if dist: "distinct (map fullName ss)" and s: "s \<in> set ss"
      and empty: "assignmentStatuses s = []" for s
  proof
    assume "fullName s \<in> set (findOutstandingAssignments None ss)"
    with m obtain s' where s': "s' \<in> set ss" "fullName s' = fullName s"
      "assignmentStatuses s' \<noteq> []" by blast
    from dist have "inj_on fullName (set ss)" by (simp add: distinct_map)
    with s s'(1,2) have "s' = s" by (auto dest: inj_onD)
    with s'(3) empty show False by simp
  qed
  show ?thesis unfolding e using r m d by blast
qed

theorem findOutstanding_no_filter_witness:
  "distinct (map fullName adaAndBob)
   \<and> adaAndBob ! 1 \<in> set adaAndBob \<and> assignmentStatuses (adaAndBob ! 1) = []
   \<and> fullName (adaAndBob ! 1) = ''Bob''
   \<and> findOutstandingAssignments None adaAndBob = [''Ada'']
   \<and> ''Bob'' \<notin> set (findOutstandingAssignments None adaAndBob)"
proof -
  have h: "distinct (map fullName adaAndBob)" "adaAndBob ! 1 \<in> set adaAndBob"
    "assignmentStatuses (adaAndBob ! 1) = []" "fullName (adaAndBob ! 1) = ''Bob''"
    by (simp_all add: adaAndBob_def newStudent_def)
  have f: "filter (\<lambda>s. assignmentStatuses s \<noteq> [] \<and> hasOutstanding s) adaAndBob
          = [adaAndBob ! 0]"
    by (simp add: hasOutstanding_def adaAndBob_def newAssignment_def newStudent_def)
  from findOutstanding_no_filter [of adaAndBob] f
  have 1: "findOutstandingAssignments None adaAndBob = [fullName (adaAndBob ! 0)]" by simp
  from findOutstanding_no_filter [of adaAndBob] h
  have 2: "''Bob'' \<notin> set (findOutstandingAssignments None adaAndBob)" by auto
  from 1 2 h show ?thesis by (simp add: adaAndBob_def)
qed

text \<open>
  The result holds names, not students.  Of two students called Sam, the first with a
  released assignment and the second with none, the result is the one name Sam, which is
  also the full name of the student whose collection is empty.
\<close>

theorem shared_name_counterexample:
  "findOutstandingAssignments None twoSams = [''Sam'']
   \<and> fullName (twoSams ! 1) = ''Sam''
   \<and> assignmentStatuses (twoSams ! 1) = []"
  by (simp add: findOutstandingAssignments_def outstandingAny_def twoSams_def
      newAssignment_def newStudent_def)

text \<open>
  C9. \<open>sendReminder\<close> goes by full name.  If a student of the roster has the named
  assignment outstanding, then any other student of the roster with the same full name
  ends with that assignment in status \<open>submitted\<close>; and if that other student did not have
  the assignment, it is created in the student's next free slot and the student's observer
  is notified of the release.
\<close>

theorem sendReminder_same_name:
  assumes "a \<in> set ids" and "a < length (heap w)"
    and "b \<in> set ids" and "b < length (heap w)" and "b \<noteq> a"
    and "fullName (heap w ! b) = fullName (heap w ! a)"
    and "findAssignment n (assignmentStatuses (heap w ! a)) = Some i"
    and "status (getA w a i) \<noteq> Submitted \<and> status (getA w a i) \<noteq> Pass
         \<and> status (getA w a i) \<noteq> Fail"
  shows "(\<exists>j. findAssignment n (assignmentStatuses (heap (sendReminder ids ob n w) ! b)) = Some j
            \<and> status (getA (sendReminder ids ob n w) b j) = Submitted)
     \<and> (findAssignment n (assignmentStatuses (heap w ! b)) = None \<longrightarrow>
          findAssignment n (assignmentStatuses (heap (sendReminder ids ob n w) ! b))
            = Some (length (assignmentStatuses (heap w ! b)))
          \<and> (canNotify (observer (heap w ! b)) \<longrightarrow>
               (\<exists>ys. console (sendReminder ids ob n w) = console w @ ys
                  \<and> (fullName (heap w ! b), n, Released, False) \<in> set ys)))
     \<and> notify (fullName (heap w ! b), n, Released, False)
          = MsgReleased (fullName (heap w ! b)) n"
proof -
  let ?out = "findOutstandingAssignments (Some n) (rosterStudents ids w)"
  from assms(8) have st: "status (getA w a i) \<noteq> Submitted" "status (getA w a i) \<noteq> Pass"
    "status (getA w a i) \<noteq> Fail" by simp_all
  have "fullName (heap w ! a) \<in> set ?out"
    by (rule outstanding_listed [OF assms(1,2,7) st])
  with assms(6) have o: "fullName (heap w ! b) \<in> set ?out" by simp
  note sub = foldl_remind_submitted [OF assms(3,4) o, where n = n and ob = ob]
  have 1: "\<exists>j. findAssignment n (assignmentStatuses (heap (sendReminder ids ob n w) ! b)) = Some j
            \<and> status (getA (sendReminder ids ob n w) b j) = Submitted"
    using sub unfolding sendReminder_def by blast
  have 2: "findAssignment n (assignmentStatuses (heap (sendReminder ids ob n w) ! b))
            = Some (length (assignmentStatuses (heap w ! b)))
          \<and> (canNotify (observer (heap w ! b)) \<longrightarrow>
               (\<exists>ys. console (sendReminder ids ob n w) = console w @ ys
                  \<and> (fullName (heap w ! b), n, Released, False) \<in> set ys))"
    if none: "findAssignment n (assignmentStatuses (heap w ! b)) = None"
  proof -
    have s: "slot n (assignmentStatuses (heap w ! b)) = length (assignmentStatuses (heap w ! b))"
      using none by (simp add: slot_def)
    from sub foldl_remind_released [OF assms(3,4) o none, where ob = ob]
    show ?thesis unfolding sendReminder_def s by simp
  qed
  from 1 2 show ?thesis by simp
qed

theorem sendReminder_same_name_witness:
  "(0::nat) \<in> set [0, 1] \<and> (0::nat) < length (heap twins)
   \<and> (1::nat) \<in> set [0, 1] \<and> (1::nat) < length (heap twins) \<and> (1::nat) \<noteq> 0
   \<and> fullName (heap twins ! 1) = fullName (heap twins ! 0)
   \<and> findAssignment ''HW3'' (assignmentStatuses (heap twins ! 0)) = Some 0
   \<and> status (getA twins 0 0) = Released
   \<and> findAssignment ''HW3'' (assignmentStatuses (heap twins ! 1)) = None
   \<and> canNotify (observer (heap twins ! 1))
   \<and> findAssignment ''HW3''
        (assignmentStatuses (heap (sendReminder [0, 1] ObsNull ''HW3'' twins) ! 1)) = Some 0
   \<and> status (getA (sendReminder [0, 1] ObsNull ''HW3'' twins) 1 0) = Submitted
   \<and> (\<exists>ys. console (sendReminder [0, 1] ObsNull ''HW3'' twins) = console twins @ ys
          \<and> (''Sam'', ''HW3'', Released, False) \<in> set ys)"
proof -
  have h: "(0::nat) \<in> set [0, 1]" "(0::nat) < length (heap twins)"
    "(1::nat) \<in> set [0, 1]" "(1::nat) < length (heap twins)" "(1::nat) \<noteq> 0"
    "fullName (heap twins ! 1) = fullName (heap twins ! 0)"
    "findAssignment ''HW3'' (assignmentStatuses (heap twins ! 0)) = Some 0"
    "status (getA twins 0 0) \<noteq> Submitted \<and> status (getA twins 0 0) \<noteq> Pass
         \<and> status (getA twins 0 0) \<noteq> Fail"
    by (simp_all add: twins_def newStudent_def newAssignment_def getA_def)
  have v: "status (getA twins 0 0) = Released"
    "findAssignment ''HW3'' (assignmentStatuses (heap twins ! 1)) = None"
    "canNotify (observer (heap twins ! 1))" "length (assignmentStatuses (heap twins ! 1)) = 0"
    "fullName (heap twins ! 1) = ''Sam''"
    by (simp_all add: twins_def newStudent_def newAssignment_def getA_def)
  from sendReminder_same_name [OF h, of ObsNull] v h show ?thesis by auto
qed

text \<open>
  C10. With an observer that is \<open>undefined\<close>, \<open>null\<close> or without a \<open>notify\<close>
  function, \<open>updateAssignmentStatus\<close>, \<open>startWorking\<close> and \<open>submitAssignment\<close> end in the
  state they end in with a working observer, but for the observer itself and the console,
  which stays as it was.
\<close>

theorem broken_observer_same_state:
  assumes "\<not> canNotify ob" and "sid < length (heap w)"
  shows "updateAssignmentStatus sid n v (setObserver sid ob w)
           = silenced sid ob (console w)
               (updateAssignmentStatus sid n v (setObserver sid ObsNotify w))
     \<and> startWorking sid n (setObserver sid ob w)
           = silenced sid ob (console w) (startWorking sid n (setObserver sid ObsNotify w))
     \<and> submitAssignment sid n (setObserver sid ob w)
           = silenced sid ob (console w) (submitAssignment sid n (setObserver sid ObsNotify w))
     \<and> console (updateAssignmentStatus sid n v (setObserver sid ob w)) = console w
     \<and> console (startWorking sid n (setObserver sid ob w)) = console w
     \<and> console (submitAssignment sid n (setObserver sid ob w)) = console w"
proof -
  let ?n = "setObserver sid ObsNotify w"
  have s: "sid < length (heap ?n)" using assms(2) by simp
  have e: "setObserver sid ob w = silenced sid ob (console w) ?n"
    by (simp add: silenced_setObserver)
  have 1: "updateAssignmentStatus sid n v (setObserver sid ob w)
           = silenced sid ob (console w) (updateAssignmentStatus sid n v ?n)"
    unfolding e by (rule update_silenced [OF assms(1) s])
  have 2: "startWorking sid n (setObserver sid ob w)
           = silenced sid ob (console w) (startWorking sid n ?n)"
    unfolding e by (rule startWorking_silenced [OF assms(1) s])
  have 3: "submitAssignment sid n (setObserver sid ob w)
           = silenced sid ob (console w) (submitAssignment sid n ?n)"
    unfolding e by (rule submit_silenced [OF assms(1) s])
  show ?thesis
    unfolding 1 2 3 by simp
qed

theorem broken_observer_same_state_witness:
  "\<not> canNotify ObsNull \<and> (0::nat) < length (heap adaAlone)
   \<and> startWorking 0 ''HW1'' (setObserver 0 ObsNull adaAlone)
       = silenced 0 ObsNull [] (startWorking 0 ''HW1'' adaAlone)
   \<and> timers (startWorking 0 ''HW1'' (setObserver 0 ObsNull adaAlone))
       = [(1, AutoSubmit 0 0 ''HW1'')]
   \<and> console (startWorking 0 ''HW1'' (setObserver 0 ObsNull adaAlone)) = []
   \<and> console (startWorking 0 ''HW1'' adaAlone)
       = [(''Ada'', ''HW1'', Released, False), (''Ada'', ''HW1'', Working, False)]"
proof -
  have h: "\<not> canNotify ObsNull" "(0::nat) < length (heap adaAlone)"
    by (simp_all add: adaAlone_def)
  have e: "setObserver 0 ObsNotify adaAlone = adaAlone" "console adaAlone = []"
    by (simp_all add: setObserver_def adaAlone_def newStudent_def)
  have t: "timers (startWorking 0 ''HW1'' adaAlone) = [(1, AutoSubmit 0 0 ''HW1'')]"
    "console (startWorking 0 ''HW1'' adaAlone)
       = [(''Ada'', ''HW1'', Released, False), (''Ada'', ''HW1'', Working, False)]"
    by (simp_all add: adaAlone_def exec_defs)
  from broken_observer_same_state [OF h, of "''HW1''" JUndefined] e t h
  show ?thesis by simp
qed

end
